theory Spec2Isabelle
  imports Complex_Main "HOL-Library.Word" "HOL-Library.Log_Nat"
begin

section \<open>The host environment of \<open>allocator.h\<close>\<close>

text \<open>
  Modelled from the spec: \<open>Size\<close> is declared in \<open>int.h\<close>, which is not among the
  sources. The spec has counts \<open>n \<ge> 0\<close>; the code adds, subtracts, multiplies and compares
  them as unsigned machine integers, whose arithmetic wraps around. The width is taken to
  be 64 bits.
\<close>

type_synonym Size = "64 word"

text \<open>
  A \<open>T*\<close> is the null pointer, the value \<open>(T* )-1\<close> that \<open>free\<close> stores in debug
  builds, or the address of a block handed out by \<open>malloc\<close>.
\<close>

datatype pointer = Null | Sentinel | Addr nat

text \<open>
  What the allocator does to the heap and to the elements, in the order it does it:
  a block acquired with its size in bytes, a block released, the constructor of \<open>T\<close>
  run at an index of a block, the destructor of \<open>T\<close> run at an index of a block.
\<close>

datatype event = Acquire nat Size | Release nat | Construct nat nat | Destruct nat nat

text \<open>
  The heap is an explicit store. A block is a list of cells, \<open>None\<close> for raw memory and
  \<open>Some v\<close> for a constructed element of value \<open>v\<close>; the block at address \<open>a\<close> is
  \<open>blocks ! a\<close>, and it is \<open>None\<close> once released. Whether \<open>malloc\<close> returns a block is
  the host's decision: \<open>outcomes\<close> lists the outcomes of the coming calls (\<open>True\<close>: a
  block is returned), and an exhausted list returns no block.
\<close>

record 'a heap =
  blocks :: "'a option list option list"
  outcomes :: "bool list"
  trace :: "event list"

text \<open>
  The parameters of an instantiation: whether the build defines \<open>NDEBUG\<close>, the size of
  the element type in bytes and the value its default constructor \<open>T()\<close> makes. A copy
  constructed element has the value of its source. The constructors and the destructor of
  \<open>T\<close> return: they do not throw.
\<close>

record 'a env =
  NDEBUG :: bool
  sizeof_T :: Size
  T_default :: 'a

text \<open>The fields \<open>__ptr\<close>, \<open>_count\<close> and \<open>_cap\<close> of \<open>StdAllocator\<close>.\<close>

record allocator =
  m_ptr :: pointer
  m_count :: Size
  m_cap :: Size

text \<open>
  A call returns normally with the object and the heap as it left them (\<open>Inr\<close>), or
  throws \<open>AllocException\<close> (the object and the heap are then what they were at the throw),
  or is halted by \<open>CHI_ASSERT\<close>, or has undefined behaviour: it touches memory outside a
  live block, reads or destructs a cell that holds no element, releases a pointer that is
  no live block, or converts a float out of the range of \<open>Size\<close>. \<open>AllocException\<close> is
  declared in \<open>exception.h\<close>, which is not among the sources; only its name is used.
\<close>

datatype 'a error = AllocException "allocator \<times> 'a heap" | Abort string | Undefined

type_synonym 'a result = "'a error + allocator \<times> 'a heap"

text \<open>
  Modelled from the spec: \<open>CHI_ASSERT\<close> is declared in \<open>exception.h\<close>, which is not among
  the sources. The spec describes a contract-checking facility that halts execution with
  a diagnostic in debug builds and is a no-op in optimized builds. At each of its three
  call sites the condition passed is the misuse the message names, so the facility halts
  when the condition holds.
\<close>

definition CHI_ASSERT :: "'a env \<Rightarrow> bool \<Rightarrow> string \<Rightarrow> 'e error + 'r \<Rightarrow> 'e error + 'r" where
  "CHI_ASSERT env cond msg rest = (if \<not> NDEBUG env \<and> cond then Inl (Abort msg) else rest)"

subsection \<open>Heap primitives\<close>

definition malloc :: "'a env \<Rightarrow> Size \<Rightarrow> 'a heap \<Rightarrow> pointer \<times> 'a heap" where
  "malloc env bytes h =
     (case outcomes h of
        [] \<Rightarrow> (Null, h)
      | ok # rest \<Rightarrow>
          if ok
          then (Addr (length (blocks h)),
                h\<lparr>blocks := blocks h @ [Some (replicate (unat bytes div unat (sizeof_T env)) None)],
                  outcomes := rest,
                  trace := trace h @ [Acquire (length (blocks h)) bytes]\<rparr>)
          else (Null, h\<lparr>outcomes := rest\<rparr>))"

definition block_at :: "'a heap \<Rightarrow> pointer \<Rightarrow> 'a option list option" where
  "block_at h p =
     (case p of
        Addr a \<Rightarrow> if a < length (blocks h) then blocks h ! a else None
      | _ \<Rightarrow> None)"

text \<open>\<open>p[i]\<close> read as a value.\<close>

definition read :: "pointer \<Rightarrow> nat \<Rightarrow> 'a heap \<Rightarrow> 'a option" where
  "read p i h =
     (case block_at h p of
        None \<Rightarrow> None
      | Some cells \<Rightarrow> if i < length cells then cells ! i else None)"

text \<open>\<open>new (p + i) T(v)\<close>.\<close>

definition placement_new :: "pointer \<Rightarrow> nat \<Rightarrow> 'a \<Rightarrow> 'a heap \<Rightarrow> 'a heap option" where
  "placement_new p i v h =
     (case p of
        Addr a \<Rightarrow>
          (case block_at h p of
             None \<Rightarrow> None
           | Some cells \<Rightarrow>
               if i < length cells
               then Some (h\<lparr>blocks := (blocks h)[a := Some (cells[i := Some v])],
                           trace := trace h @ [Construct a i]\<rparr>)
               else None)
      | _ \<Rightarrow> None)"

text \<open>\<open>p[i].~T()\<close>.\<close>

definition dtor :: "pointer \<Rightarrow> nat \<Rightarrow> 'a heap \<Rightarrow> 'a heap option" where
  "dtor p i h =
     (case p of
        Addr a \<Rightarrow>
          (case block_at h p of
             None \<Rightarrow> None
           | Some cells \<Rightarrow>
               if i < length cells \<and> cells ! i \<noteq> None
               then Some (h\<lparr>blocks := (blocks h)[a := Some (cells[i := None])],
                           trace := trace h @ [Destruct a i]\<rparr>)
               else None)
      | _ \<Rightarrow> None)"

text \<open>\<open>::free(p)\<close>: nothing for the null pointer.\<close>

definition release :: "pointer \<Rightarrow> 'a heap \<Rightarrow> 'a heap option" where
  "release p h =
     (case p of
        Null \<Rightarrow> Some h
      | Sentinel \<Rightarrow> None
      | Addr a \<Rightarrow>
          (case block_at h p of
             None \<Rightarrow> None
           | Some cells \<Rightarrow>
               Some (h\<lparr>blocks := (blocks h)[a := None], trace := trace h @ [Release a]\<rparr>)))"

text \<open>A loop over a local index: the body runs at each index in turn.\<close>

fun for_each :: "nat list \<Rightarrow> (nat \<Rightarrow> 'h \<Rightarrow> 'h option) \<Rightarrow> 'h \<Rightarrow> 'h option" where
  "for_each [] body h = Some h"
| "for_each (i # is) body h =
     (case body i h of None \<Rightarrow> None | Some h' \<Rightarrow> for_each is body h')"

section \<open>\<open>StdAllocator\<close>\<close>

text \<open>The constructor.\<close>

definition StdAllocator :: allocator where
  "StdAllocator = \<lparr>m_ptr = Null, m_count = 0, m_cap = 0\<rparr>"

text \<open>
  The four overloads of \<open>allocate\<close> differ in the initializer of the macro
  \<open>ONE_ALLOCATE\<close> only: \<open>T()\<close>, \<open>T(def_val)\<close> and \<open>T(copy[i])\<close> for a pointer or a
  list. Reading \<open>copy[i]\<close> beyond the source is undefined behaviour. The macro of
  \<open>StdAllocator\<close> checks the pointer, sets a null pointer for a count of 0 and otherwise
  takes a block of \<open>count * sizeof(T)\<close> bytes, throws if there is none, and constructs
  the elements from index 0 upwards; at the end it stores the count. It leaves \<open>_cap\<close>
  alone.
\<close>

datatype 'a init = Default | Fill 'a | Copy "'a list"

definition init_value :: "'a env \<Rightarrow> 'a init \<Rightarrow> nat \<Rightarrow> 'a option" where
  "init_value env ini i =
     (case ini of
        Default \<Rightarrow> Some (T_default env)
      | Fill v \<Rightarrow> Some v
      | Copy xs \<Rightarrow> if i < length xs then Some (xs ! i) else None)"

definition construct_init :: "'a env \<Rightarrow> pointer \<Rightarrow> 'a init \<Rightarrow> nat \<Rightarrow> 'a heap \<Rightarrow> 'a heap option" where
  "construct_init env p ini i h =
     (case init_value env ini i of None \<Rightarrow> None | Some v \<Rightarrow> placement_new p i v h)"

definition Std_allocate :: "'a env \<Rightarrow> Size \<Rightarrow> 'a init \<Rightarrow> allocator \<times> 'a heap \<Rightarrow> 'a result" where
  "Std_allocate env n ini = (\<lambda>(this, h).
     CHI_ASSERT env (m_ptr this \<noteq> Null \<and> m_ptr this \<noteq> Sentinel)
       ''Allocating with StdAllocator while already allocated, this is a memory leak''
       (if n = 0 then Inr (this\<lparr>m_ptr := Null, m_count := n\<rparr>, h)
        else
          (case malloc env (n * sizeof_T env) h of
             (p, h1) \<Rightarrow>
               if p = Null then Inl (AllocException (this, h1))
               else
                 (case for_each [0..<unat n] (construct_init env p ini) h1 of
                    None \<Rightarrow> Inl Undefined
                  | Some h2 \<Rightarrow> Inr (this\<lparr>m_ptr := p, m_count := n\<rparr>, h2)))))"

definition capacity :: "allocator \<Rightarrow> Size" where
  "capacity this = m_cap this"

definition count :: "allocator \<Rightarrow> Size" where
  "count this = m_count this"

definition destruct :: "allocator \<Rightarrow> 'a heap \<Rightarrow> 'a heap option" where
  "destruct this h = for_each [0..<unat (m_count this)] (dtor (m_ptr this)) h"

definition free :: "'a env \<Rightarrow> allocator \<times> 'a heap \<Rightarrow> 'a result" where
  "free env = (\<lambda>(this, h).
     CHI_ASSERT env (m_ptr this = Sentinel) ''Double free in StdAllocator''
       (case destruct this h of
          None \<Rightarrow> Inl Undefined
        | Some h1 \<Rightarrow>
            (case release (m_ptr this) h1 of
               None \<Rightarrow> Inl Undefined
             | Some h2 \<Rightarrow>
                 Inr (if NDEBUG env then this else this\<lparr>m_ptr := Sentinel\<rparr>, h2))))"

text \<open>\<open>new (new_ptr + i) T( this->__ptr[i] )\<close>.\<close>

definition copy_construct :: "pointer \<Rightarrow> pointer \<Rightarrow> nat \<Rightarrow> 'a heap \<Rightarrow> 'a heap option" where
  "copy_construct old_ptr new_ptr i h =
     (case read old_ptr i h of None \<Rightarrow> None | Some v \<Rightarrow> placement_new new_ptr i v h)"

text \<open>
  The last loop of \<open>_grow\<close> counts with the field \<open>_count\<close> itself:
  \<open>for ( ; this->_count < new_size; this->_count++ ) new (this->__ptr + this->_count) T();\<close>
\<close>

function init_new_elements :: "'a env \<Rightarrow> Size \<Rightarrow> allocator \<times> 'a heap \<Rightarrow> (allocator \<times> 'a heap) option" where
  "init_new_elements env new_size (this, h) =
     (if m_count this < new_size
      then (case placement_new (m_ptr this) (unat (m_count this)) (T_default env) h of
              None \<Rightarrow> None
            | Some h' \<Rightarrow> init_new_elements env new_size (this\<lparr>m_count := m_count this + 1\<rparr>, h'))
      else Some (this, h))"
  by pat_completeness auto
termination
proof (relation "measure (\<lambda>(env, new_size, this, h). unat new_size - unat (m_count this))")
  show "wf (measure (\<lambda>(env, new_size, this, h). unat new_size - unat (m_count this)))"
    by simp
next
  fix env :: "'a env" and new_size :: Size and this :: allocator and h h' :: "'a heap"
  assume "m_count this < new_size"
  then have "unat new_size - unat (m_count this + 1) < unat new_size - unat (m_count this)"
    by unat_arith
  then show "((env, new_size, this\<lparr>m_count := m_count this + 1\<rparr>, h'), (env, new_size, this, h))
      \<in> measure (\<lambda>(env, new_size, this, h). unat new_size - unat (m_count this))"
    by simp
qed

text \<open>
  \<open>_grow\<close> of \<open>StdAllocator\<close>: a block for \<open>_count + increment\<close> elements, the copy
  of the elements from index 0 upwards, their destruction in the old block from index 0
  upwards, the release of the old block, the two assignments, the new elements.
\<close>

definition Std_grow :: "'a env \<Rightarrow> Size \<Rightarrow> allocator \<times> 'a heap \<Rightarrow> 'a result" where
  "Std_grow env increment = (\<lambda>(this, h).
     let new_size = m_count this + increment in
     (case malloc env (new_size * sizeof_T env) h of
        (new_ptr, h1) \<Rightarrow>
          if new_ptr = Null then Inl (AllocException (this, h1))
          else
            (case for_each [0..<unat (m_count this)] (copy_construct (m_ptr this) new_ptr) h1 of
               None \<Rightarrow> Inl Undefined
             | Some h2 \<Rightarrow>
                 (case for_each [0..<unat (m_count this)] (dtor (m_ptr this)) h2 of
                    None \<Rightarrow> Inl Undefined
                  | Some h3 \<Rightarrow>
                      (case release (m_ptr this) h3 of
                         None \<Rightarrow> Inl Undefined
                       | Some h4 \<Rightarrow>
                           (case init_new_elements env new_size
                                   (this\<lparr>m_ptr := new_ptr, m_cap := new_size\<rparr>, h4) of
                              None \<Rightarrow> Inl Undefined
                            | Some s \<Rightarrow> Inr s))))))"

text \<open>
  \<open>for ( ; new_count < this->_count; this->_count-- ) this->__ptr[this->_count - 1].~T();\<close>
\<close>

function destruct_removed :: "Size \<Rightarrow> allocator \<times> 'a heap \<Rightarrow> (allocator \<times> 'a heap) option" where
  "destruct_removed new_count (this, h) =
     (if new_count < m_count this
      then (case dtor (m_ptr this) (unat (m_count this - 1)) h of
              None \<Rightarrow> None
            | Some h' \<Rightarrow> destruct_removed new_count (this\<lparr>m_count := m_count this - 1\<rparr>, h'))
      else Some (this, h))"
  by pat_completeness auto
termination
proof (relation "measure (\<lambda>(new_count, this, h). unat (m_count this))")
  show "wf (measure (\<lambda>(new_count, this, h). unat (m_count this)))"
    by simp
next
  fix new_count :: Size and this :: allocator and h h' :: "'a heap"
  assume "new_count < m_count this"
  then have "unat (m_count this - 1) < unat (m_count this)"
    by unat_arith
  then show "((new_count, this\<lparr>m_count := m_count this - 1\<rparr>, h'), (new_count, this, h))
      \<in> measure (\<lambda>(new_count, this, h). unat (m_count this))"
    by simp
qed

definition Std_shrink :: "Size \<Rightarrow> allocator \<times> 'a heap \<Rightarrow> 'a result" where
  "Std_shrink decrement = (\<lambda>(this, h).
     let new_count = m_count this - decrement in
     (case destruct_removed new_count (this, h) of
        None \<Rightarrow> Inl Undefined
      | Some s \<Rightarrow> Inr s))"

section \<open>The type \<open>float\<close>\<close>

text \<open>
  \<open>FutureAllocator\<close> computes its capacities in the type \<open>float\<close>. The arithmetic of
  that type is the compiler's, not the library's; it is taken to be that of the IEEE 754
  format binary32 in the default rounding mode, every result rounded to the format, as
  on the x86-64 and AArch64 hosts. A finite \<open>float\<close> is zero or \<open>\<plusminus> M * 2^E\<close> with
  \<open>M < 2^24\<close> and \<open>- 149 \<le> E \<le> 104\<close>, and the result of a conversion or of an
  operation is the exact result rounded to the nearest such number, to the one with the
  even \<open>M\<close> when two are equally near. A finite \<open>float\<close> is taken for the rational it
  denotes. A rounded result of magnitude \<open>2^128\<close> or more is an infinity in the format;
  here it stays a number, and \<open>float_to_Size\<close>, its only reader, is undefined for both.
  The multiplier of a \<open>FutureAllocator\<close> is taken to be finite: with an infinity or a
  NaN every product below is an infinity or a NaN, whose conversion to \<open>Size\<close> is
  undefined.
\<close>

type_synonym float = rat

text \<open>
  The exponent of a number other than zero: the \<open>e\<close> with
  \<open>2^e \<le> \<bar>x\<bar> < 2^(e + 1)\<close>.
\<close>

definition exponent :: "rat \<Rightarrow> int" where
  "exponent x =
     (if 1 \<le> \<bar>x\<bar> then bitlen \<lfloor>\<bar>x\<bar>\<rfloor> - 1 else - bitlen (\<lceil>1 / \<bar>x\<bar>\<rceil> - 1))"

text \<open>The nearest integer, the even one of the two when \<open>k\<close> lies halfway.\<close>

definition nearest_even :: "rat \<Rightarrow> int" where
  "nearest_even k =
     (let f = \<lfloor>k\<rfloor> in
      if k - of_int f < 1 / 2 then f
      else if 1 / 2 < k - of_int f then f + 1
      else if even f then f else f + 1)"

text \<open>
  Rounding to \<open>float\<close>: to the nearest multiple of the unit in the last of the 24
  places, which is \<open>2^(e - 23)\<close> for a number of exponent \<open>e\<close>, and \<open>2^(- 149)\<close> for
  the numbers below \<open>2^(- 126)\<close>.
\<close>

definition float_round :: "rat \<Rightarrow> float" where
  "float_round x =
     (if x = 0 then 0
      else
        let ulp = 2 powi (max (exponent x) (- 126) - 23)
        in of_int (nearest_even (x / ulp)) * ulp)"

text \<open>The values of the type: the numbers that rounding leaves as they are.\<close>

definition binary32 :: "rat \<Rightarrow> bool" where
  "binary32 x \<longleftrightarrow> float_round x = x \<and> \<bar>x\<bar> < 2 ^ 128"

text \<open>
  The conversion of a \<open>Size\<close> operand to \<open>float\<close>, the product of two \<open>float\<close>s, and
  the conversion of a \<open>float\<close> to \<open>Size\<close>, which discards the fraction (truncation
  toward zero) and is undefined when the truncated value is not a value of \<open>Size\<close>.
\<close>

definition Size_to_float :: "Size \<Rightarrow> float" where
  "Size_to_float n = float_round (of_int (uint n))"

definition float_times :: "float \<Rightarrow> float \<Rightarrow> float" where
  "float_times x y = float_round (x * y)"

definition float_to_Size :: "float \<Rightarrow> Size option" where
  "float_to_Size x =
     (let t = (if x < 0 then - \<lfloor>- x\<rfloor> else \<lfloor>x\<rfloor>)
      in if 0 \<le> t \<and> t < 2 ^ 64 then Some (word_of_int t) else None)"

section \<open>\<open>FutureAllocator\<close>\<close>

text \<open>
  The field \<open>multiplier\<close> is a \<open>float\<close> that no method assigns after the constructor, so
  it is a parameter of the methods. In \<open>this->multiplier * count\<close> the count is converted
  to \<open>float\<close>, the product is a \<open>float\<close>, and storing it in a \<open>Size\<close> converts it
  back. The constructor compares the multiplier with \<open>1.0\<close>.
\<close>

definition FutureAllocator :: "'a env \<Rightarrow> float \<Rightarrow> 'a error + allocator" where
  "FutureAllocator env multiplier =
     CHI_ASSERT env (multiplier < 1) ''Multiplier should not be less than 1.''
       (Inr StdAllocator)"

text \<open>
  The macro \<open>ONE_ALLOCATE\<close> of \<open>FutureAllocator\<close> has no check. Its first statement is
  \<open>this->_cap = this->multiplier * count\<close>, before the block of \<open>_cap * sizeof(T)\<close> bytes
  is requested.
\<close>

definition Future_allocate ::
  "'a env \<Rightarrow> float \<Rightarrow> Size \<Rightarrow> 'a init \<Rightarrow> allocator \<times> 'a heap \<Rightarrow> 'a result" where
  "Future_allocate env multiplier n ini = (\<lambda>(this, h).
     (case float_to_Size (float_times multiplier (Size_to_float n)) of
        None \<Rightarrow> Inl Undefined
      | Some c \<Rightarrow>
          let this1 = this\<lparr>m_cap := c\<rparr> in
          if n = 0 then Inr (this1\<lparr>m_ptr := Null, m_count := n\<rparr>, h)
          else
            (case malloc env (m_cap this1 * sizeof_T env) h of
               (p, h1) \<Rightarrow>
                 if p = Null then Inl (AllocException (this1, h1))
                 else
                   (case for_each [0..<unat n] (construct_init env p ini) h1 of
                      None \<Rightarrow> Inl Undefined
                    | Some h2 \<Rightarrow> Inr (this1\<lparr>m_ptr := p, m_count := n\<rparr>, h2)))))"

text \<open>
  \<open>_grow\<close> of \<open>FutureAllocator\<close> moves the elements only if
  \<open>new_size > this->_cap\<close>, and keeps the new capacity in a local variable until the
  block is there.
\<close>

definition Future_grow :: "'a env \<Rightarrow> float \<Rightarrow> Size \<Rightarrow> allocator \<times> 'a heap \<Rightarrow> 'a result" where
  "Future_grow env multiplier increment = (\<lambda>(this, h).
     let new_size = m_count this + increment in
     if new_size > m_cap this
     then
       (case float_to_Size (float_times multiplier (Size_to_float new_size)) of
          None \<Rightarrow> Inl Undefined
        | Some new_capacity \<Rightarrow>
            (case malloc env (new_capacity * sizeof_T env) h of
               (new_ptr, h1) \<Rightarrow>
                 if new_ptr = Null then Inl (AllocException (this, h1))
                 else
                   (case for_each [0..<unat (m_count this)]
                           (copy_construct (m_ptr this) new_ptr) h1 of
                      None \<Rightarrow> Inl Undefined
                    | Some h2 \<Rightarrow>
                        (case for_each [0..<unat (m_count this)] (dtor (m_ptr this)) h2 of
                           None \<Rightarrow> Inl Undefined
                         | Some h3 \<Rightarrow>
                             (case release (m_ptr this) h3 of
                                None \<Rightarrow> Inl Undefined
                              | Some h4 \<Rightarrow>
                                  (case init_new_elements env new_size
                                          (this\<lparr>m_ptr := new_ptr, m_cap := new_capacity\<rparr>, h4) of
                                     None \<Rightarrow> Inl Undefined
                                   | Some s \<Rightarrow> Inr s))))))
     else
       (case init_new_elements env new_size (this, h) of
          None \<Rightarrow> Inl Undefined
        | Some s \<Rightarrow> Inr s))"

section \<open>The interface \<open>Allocator\<close>\<close>

text \<open>
  The dynamic class of an object decides which \<open>allocate\<close> and \<open>_grow\<close> a call reaches;
  \<open>FutureAllocator\<close> inherits \<open>_shrink\<close>, \<open>free\<close>, \<open>capacity\<close> and \<open>count\<close>.
\<close>

datatype strategy = ExactFit | Amortized float

definition allocate ::
  "strategy \<Rightarrow> 'a env \<Rightarrow> Size \<Rightarrow> 'a init \<Rightarrow> allocator \<times> 'a heap \<Rightarrow> 'a result" where
  "allocate cls env n ini =
     (case cls of
        ExactFit \<Rightarrow> Std_allocate env n ini
      | Amortized multiplier \<Rightarrow> Future_allocate env multiplier n ini)"

definition grow :: "strategy \<Rightarrow> 'a env \<Rightarrow> Size \<Rightarrow> allocator \<times> 'a heap \<Rightarrow> 'a result" where
  "grow cls env increment =
     (case cls of
        ExactFit \<Rightarrow> Std_grow env increment
      | Amortized multiplier \<Rightarrow> Future_grow env multiplier increment)"

definition shrink :: "strategy \<Rightarrow> Size \<Rightarrow> allocator \<times> 'a heap \<Rightarrow> 'a result" where
  "shrink cls decrement = Std_shrink decrement"

definition resize :: "strategy \<Rightarrow> 'a env \<Rightarrow> Size \<Rightarrow> allocator \<times> 'a heap \<Rightarrow> 'a result" where
  "resize cls env n = (\<lambda>(this, h).
     if n > count this then grow cls env (n - count this) (this, h)
     else if n < count this then shrink cls (count this - n) (this, h)
     else Inr (this, h))"

text \<open>A sequence of calls on one object; it ends at the first call that does not return.\<close>

datatype 'a request = Allocate Size "'a init" | Grow Size | Shrink Size | Resize Size | Free

fun call :: "strategy \<Rightarrow> 'a env \<Rightarrow> 'a request \<Rightarrow> allocator \<times> 'a heap \<Rightarrow> 'a result" where
  "call cls env (Allocate n ini) s = allocate cls env n ini s"
| "call cls env (Grow k) s = grow cls env k s"
| "call cls env (Shrink k) s = shrink cls k s"
| "call cls env (Resize n) s = resize cls env n s"
| "call cls env Free s = free env s"

fun run :: "strategy \<Rightarrow> 'a env \<Rightarrow> 'a request list \<Rightarrow> allocator \<times> 'a heap \<Rightarrow> 'a result" where
  "run cls env [] s = Inr s"
| "run cls env (c # cs) s =
     (case call cls env c s of Inl e \<Rightarrow> Inl e | Inr s' \<Rightarrow> run cls env cs s')"

section \<open>Observations\<close>

text \<open>\<open>operator[]\<close>, read as a value: \<open>None\<close> where \<open>ptr()[index]\<close> is no element.\<close>

definition subscript :: "allocator \<times> 'a heap \<Rightarrow> nat \<Rightarrow> 'a option" where
  "subscript s i = read (m_ptr (fst s)) i (snd s)"

text \<open>What a call did: the events it added to the trace.\<close>

definition events :: "'a heap \<Rightarrow> 'a heap \<Rightarrow> event list" where
  "events h h' = drop (length (trace h)) (trace h')"

text \<open>The indices at which a constructor, or a destructor, ran, in the order of the runs.\<close>

fun constructions :: "event list \<Rightarrow> nat list" where
  "constructions [] = []"
| "constructions (Construct a i # evs) = i # constructions evs"
| "constructions (e # evs) = constructions evs"

fun destructions :: "event list \<Rightarrow> nat list" where
  "destructions [] = []"
| "destructions (Destruct a i # evs) = i # destructions evs"
| "destructions (e # evs) = destructions evs"

text \<open>The number of blocks acquired from the heap.\<close>

fun acquisitions :: "event list \<Rightarrow> nat" where
  "acquisitions [] = 0"
| "acquisitions (Acquire a bytes # evs) = Suc (acquisitions evs)"
| "acquisitions (e # evs) = acquisitions evs"

text \<open>
  An allocated buffer: \<open>__ptr\<close> is null and there is no element, or it is a live block
  whose first \<open>_count\<close> cells hold elements.
\<close>

definition allocated :: "allocator \<times> 'a heap \<Rightarrow> bool" where
  "allocated = (\<lambda>(this, h).
     (case m_ptr this of
        Null \<Rightarrow> m_count this = 0
      | Sentinel \<Rightarrow> False
      | Addr a \<Rightarrow>
          (case block_at h (Addr a) of
             None \<Rightarrow> False
           | Some cells \<Rightarrow>
               unat (m_count this) \<le> length cells \<and>
               list_all (\<lambda>c. c \<noteq> None) (take (unat (m_count this)) cells))))"

text \<open>The cells of a block after a loop has written \<open>g i\<close> at each index \<open>i\<close> of a list.\<close>

definition overwrite :: "nat list \<Rightarrow> (nat \<Rightarrow> 'b) \<Rightarrow> 'b list \<Rightarrow> 'b list" where
  "overwrite is g cells = fold (\<lambda>i c. c[i := g i]) is cells"

text \<open>The address a pointer holds, and the event of releasing it.\<close>

definition the_addr :: "pointer \<Rightarrow> nat" where
  "the_addr p = (case p of Addr a \<Rightarrow> a | _ \<Rightarrow> 0)"

definition release_events :: "pointer \<Rightarrow> event list" where
  "release_events p = (case p of Addr a \<Rightarrow> [Release a] | _ \<Rightarrow> [])"

text \<open>
  A debug build and an optimized build for an element type of four bytes whose default
  value is 0, and a heap with no block yet on which the next twelve requests succeed.
\<close>

definition debug_env :: "nat env" where
  "debug_env = \<lparr>NDEBUG = False, sizeof_T = 4, T_default = 0\<rparr>"

definition release_env :: "nat env" where
  "release_env = \<lparr>NDEBUG = True, sizeof_T = 4, T_default = 0\<rparr>"

definition fresh_heap :: "nat heap" where
  "fresh_heap = \<lparr>blocks = [], outcomes = replicate 12 True, trace = []\<rparr>"

text \<open>
  Two buffers on that heap: the exact-fit allocator after \<open>allocate(2)\<close>, and the
  amortized allocator with multiplier 1.5 after \<open>allocate(3)\<close>.
\<close>

definition two_elements :: allocator where
  "two_elements = \<lparr>m_ptr = Addr 0, m_count = 2, m_cap = 0\<rparr>"

definition two_elements_heap :: "nat heap" where
  "two_elements_heap =
     \<lparr>blocks = [Some [Some 0, Some 0]], outcomes = replicate 11 True,
       trace = [Acquire 0 8, Construct 0 0, Construct 0 1]\<rparr>"

definition three_of_four :: allocator where
  "three_of_four = \<lparr>m_ptr = Addr 0, m_count = 3, m_cap = 4\<rparr>"

definition three_of_four_heap :: "nat heap" where
  "three_of_four_heap =
     \<lparr>blocks = [Some [Some 0, Some 0, Some 0, None]], outcomes = replicate 11 True,
       trace = [Acquire 0 16, Construct 0 0, Construct 0 1, Construct 0 2]\<rparr>"

section \<open>The loops\<close>

declare init_new_elements.simps [simp del] destruct_removed.simps [simp del]

lemma overwrite_Nil [simp]: "overwrite [] g cells = cells"
  by (simp add: overwrite_def)

lemma overwrite_Cons [simp]: "overwrite (i # is) g cells = overwrite is g (cells[i := g i])"
  by (simp add: overwrite_def)

lemma length_overwrite [simp]: "length (overwrite is g cells) = length cells"
  by (induction "is" arbitrary: cells) auto

lemma nth_overwrite:
  "j < length cells \<Longrightarrow> overwrite is g cells ! j = (if j \<in> set is then g j else cells ! j)"
  by (induction "is" arbitrary: cells) (auto simp: nth_list_update)

lemma overwrite_append [simp]:
  "overwrite (is @ js) g cells = overwrite js g (overwrite is g cells)"
  by (simp add: overwrite_def)

lemma for_each_append:
  "for_each (is @ js) body h =
     (case for_each is body h of None \<Rightarrow> None | Some h' \<Rightarrow> for_each js body h')"
  by (induction "is" arbitrary: h) (auto split: option.splits)

lemma block_at_Addr:
  "block_at h (Addr a) = Some cells \<longleftrightarrow> a < length (blocks h) \<and> blocks h ! a = Some cells"
  by (simp add: block_at_def)

lemma block_at_update:
  "a < length (blocks h) \<Longrightarrow>
   block_at (h\<lparr>blocks := (blocks h)[a := b], trace := t\<rparr>) (Addr a') =
     (if a' = a then b else block_at h (Addr a'))"
  by (simp add: block_at_def nth_list_update)

lemma heap_upd_twice:
  "h\<lparr>blocks := B, trace := t\<rparr>\<lparr>blocks := B', trace := t'\<rparr> = h\<lparr>blocks := B', trace := t'\<rparr>"
  by simp

lemma list_update_known: "xs ! a = v \<Longrightarrow> xs[a := v] = xs"
  by auto

lemma for_each_place:
  "block_at h (Addr a) = Some cells \<Longrightarrow>
   for_each is (\<lambda>i h. case g i of None \<Rightarrow> None | Some v \<Rightarrow> placement_new (Addr a) i v h) h =
     (if \<forall>i\<in>set is. i < length cells \<and> g i \<noteq> None
      then Some (h\<lparr>blocks := (blocks h)[a := Some (overwrite is g cells)],
                  trace := trace h @ map (Construct a) is\<rparr>)
      else None)"
proof (induction "is" arbitrary: h cells)
  case Nil
  then show ?case by (simp add: block_at_Addr list_update_known)
next
  case (Cons i "is")
  show ?case
  proof (cases "i < length cells \<and> g i \<noteq> None")
    case False
    with Cons.prems show ?thesis
      by (auto simp: placement_new_def split: option.splits)
  next
    case True
    then obtain v where v: "g i = Some v" by auto
    let ?h = "h\<lparr>blocks := (blocks h)[a := Some (cells[i := Some v])], trace := trace h @ [Construct a i]\<rparr>"
    from Cons.prems True v have step: "placement_new (Addr a) i v h = Some ?h"
      by (simp add: placement_new_def)
    from Cons.prems have a: "a < length (blocks h)" by (simp add: block_at_Addr)
    then have blk: "block_at ?h (Addr a) = Some (cells[i := Some v])"
      by (simp add: block_at_update)
    show ?thesis
      using True v by (simp add: step Cons.IH [OF blk])
  qed
qed

lemma for_each_construct_init:
  assumes "block_at h (Addr a) = Some cells"
  shows "for_each is (construct_init env (Addr a) ini) h =
     (if \<forall>i\<in>set is. i < length cells \<and> init_value env ini i \<noteq> None
      then Some (h\<lparr>blocks := (blocks h)[a := Some (overwrite is (init_value env ini) cells)],
                  trace := trace h @ map (Construct a) is\<rparr>)
      else None)"
proof -
  have eq: "construct_init env (Addr a) ini =
      (\<lambda>i h. case init_value env ini i of None \<Rightarrow> None | Some v \<Rightarrow> placement_new (Addr a) i v h)"
    by (intro ext) (simp add: construct_init_def)
  from assms show ?thesis
    unfolding eq by (rule for_each_place)
qed

lemma for_each_default:
  "block_at h (Addr a) = Some cells \<Longrightarrow>
   for_each is (\<lambda>i. placement_new (Addr a) i d) h =
     (if \<forall>i\<in>set is. i < length cells
      then Some (h\<lparr>blocks := (blocks h)[a := Some (overwrite is (\<lambda>_. Some d) cells)],
                  trace := trace h @ map (Construct a) is\<rparr>)
      else None)"
  using for_each_place [of h a cells "is" "\<lambda>_. Some d"] by simp

lemma read_update:
  "old \<noteq> Addr a \<Longrightarrow> a < length (blocks h) \<Longrightarrow>
   read old i (h\<lparr>blocks := (blocks h)[a := b], trace := t\<rparr>) = read old i h"
  by (cases old) (simp_all add: read_def block_at_def)

lemma for_each_copy:
  "block_at h (Addr a) = Some cells \<Longrightarrow> old \<noteq> Addr a \<Longrightarrow>
   for_each is (copy_construct old (Addr a)) h =
     (if \<forall>i\<in>set is. i < length cells \<and> read old i h \<noteq> None
      then Some (h\<lparr>blocks := (blocks h)[a := Some (overwrite is (\<lambda>i. read old i h) cells)],
                  trace := trace h @ map (Construct a) is\<rparr>)
      else None)"
proof (induction "is" arbitrary: h cells)
  case Nil
  then show ?case by (simp add: block_at_Addr list_update_known)
next
  case (Cons i "is")
  show ?case
  proof (cases "i < length cells \<and> read old i h \<noteq> None")
    case False
    with Cons.prems show ?thesis
      by (auto simp: copy_construct_def placement_new_def split: option.splits)
  next
    case True
    then obtain v where v: "read old i h = Some v" by auto
    let ?h = "h\<lparr>blocks := (blocks h)[a := Some (cells[i := Some v])], trace := trace h @ [Construct a i]\<rparr>"
    from Cons.prems True v have step: "copy_construct old (Addr a) i h = Some ?h"
      by (simp add: copy_construct_def placement_new_def)
    from Cons.prems have a: "a < length (blocks h)" by (simp add: block_at_Addr)
    then have blk: "block_at ?h (Addr a) = Some (cells[i := Some v])"
      by (simp add: block_at_update)
    have rd: "read old j ?h = read old j h" for j
      using Cons.prems(2) a by (rule read_update)
    show ?thesis
      using True v Cons.IH [OF blk Cons.prems(2)] by (simp add: step rd)
  qed
qed

lemma for_each_dtor:
  "block_at h (Addr a) = Some cells \<Longrightarrow> distinct is \<Longrightarrow>
   for_each is (dtor (Addr a)) h =
     (if \<forall>i\<in>set is. i < length cells \<and> cells ! i \<noteq> None
      then Some (h\<lparr>blocks := (blocks h)[a := Some (overwrite is (\<lambda>_. None) cells)],
                  trace := trace h @ map (Destruct a) is\<rparr>)
      else None)"
proof (induction "is" arbitrary: h cells)
  case Nil
  then show ?case by (simp add: block_at_Addr list_update_known)
next
  case (Cons i "is")
  show ?case
  proof (cases "i < length cells \<and> cells ! i \<noteq> None")
    case False
    with Cons.prems show ?thesis
      by (auto simp: dtor_def split: option.splits)
  next
    case True
    let ?h = "h\<lparr>blocks := (blocks h)[a := Some (cells[i := None])], trace := trace h @ [Destruct a i]\<rparr>"
    from Cons.prems True have step: "dtor (Addr a) i h = Some ?h"
      by (auto simp: dtor_def)
    from Cons.prems have a: "a < length (blocks h)" by (simp add: block_at_Addr)
    then have blk: "block_at ?h (Addr a) = Some (cells[i := None])"
      by (simp add: block_at_update)
    from Cons.prems have d: "distinct is" and ni: "i \<notin> set is" by auto
    have "(\<forall>j\<in>set is. j < length cells \<and> cells[i := None] ! j \<noteq> None) =
          (\<forall>j\<in>set is. j < length cells \<and> cells ! j \<noteq> None)"
      using ni by (metis nth_list_update_neq)
    then show ?thesis
      using True Cons.IH [OF blk d] by (simp add: step)
  qed
qed

lemma for_each_dead:
  assumes "\<And>i h. body i h = None"
  shows "for_each is body h = (if is = [] then Some h else None)"
  using assms by (cases "is") auto

lemma dtor_dead: "block_at h p = None \<Longrightarrow> dtor p i h = None"
  by (cases p) (simp_all add: dtor_def)

lemma placement_new_dead: "block_at h p = None \<Longrightarrow> placement_new p i v h = None"
  by (cases p) (simp_all add: placement_new_def)

lemma for_each_first:
  "for_each is body h = Some h' \<Longrightarrow> is \<noteq> [] \<Longrightarrow> body (hd is) h \<noteq> None"
  by (cases "is") (auto split: option.splits)

lemma init_new_elements_for_each:
  "init_new_elements env new_size (this, h) =
     (case for_each [unat (m_count this)..<unat new_size]
             (\<lambda>i. placement_new (m_ptr this) i (T_default env)) h of
        None \<Rightarrow> None
      | Some h' \<Rightarrow>
          Some (this\<lparr>m_count := (if m_count this < new_size then new_size else m_count this)\<rparr>, h'))"
proof (induction env new_size "(this, h)" arbitrary: this h rule: init_new_elements.induct)
  case (1 env new_size this h)
  show ?case
  proof (cases "m_count this < new_size")
    case False
    then have "unat new_size \<le> unat (m_count this)" by unat_arith
    with False show ?thesis by (subst init_new_elements.simps) simp
  next
    case True
    then have suc: "unat (m_count this + 1) = Suc (unat (m_count this))"
      and lt: "unat (m_count this) < unat new_size" by unat_arith+
    have upt: "[unat (m_count this)..<unat new_size] =
        unat (m_count this) # [unat (m_count this + 1)..<unat new_size]"
      using lt by (simp add: upt_conv_Cons suc)
    have fin: "(if m_count this + 1 < new_size then new_size else m_count this + 1) = new_size"
      using True by unat_arith
    show ?thesis
    proof (cases "placement_new (m_ptr this) (unat (m_count this)) (T_default env) h")
      case None
      with True show ?thesis by (subst init_new_elements.simps) (simp add: upt)
    next
      case (Some h')
      have "init_new_elements env new_size (this, h) =
          init_new_elements env new_size (this\<lparr>m_count := m_count this + 1\<rparr>, h')"
        by (subst init_new_elements.simps) (simp add: True Some)
      also have "\<dots> = (case for_each [unat (m_count this + 1)..<unat new_size]
             (\<lambda>i. placement_new (m_ptr this) i (T_default env)) h' of
          None \<Rightarrow> None
        | Some h'' \<Rightarrow> Some (this\<lparr>m_count := new_size\<rparr>, h''))"
      proof -
        have "init_new_elements env new_size (this\<lparr>m_count := m_count this + 1\<rparr>, h') =
          (case for_each [unat (m_count this + 1)..<unat new_size]
             (\<lambda>i. placement_new (m_ptr this) i (T_default env)) h' of
            None \<Rightarrow> None
          | Some h'' \<Rightarrow>
              Some (this\<lparr>m_count :=
                (if m_count this + 1 < new_size then new_size else m_count this + 1)\<rparr>, h''))"
          using "1" [OF True Some] by (simp split: option.split)
        then show ?thesis by (simp only: fin)
      qed
      finally show ?thesis
        using True Some by (simp add: upt)
    qed
  qed
qed

lemma destruct_removed_for_each:
  "destruct_removed new_count (this, h) =
     (case for_each (rev [unat new_count..<unat (m_count this)]) (dtor (m_ptr this)) h of
        None \<Rightarrow> None
      | Some h' \<Rightarrow>
          Some (this\<lparr>m_count := (if new_count < m_count this then new_count else m_count this)\<rparr>, h'))"
proof (induction new_count "(this, h)" arbitrary: this h rule: destruct_removed.induct)
  case (1 new_count this h)
  show ?case
  proof (cases "new_count < m_count this")
    case False
    then have "unat (m_count this) \<le> unat new_count" by unat_arith
    with False show ?thesis by (subst destruct_removed.simps) simp
  next
    case True
    then have pre: "unat (m_count this - 1) = unat (m_count this) - 1"
      and lt: "unat new_count < unat (m_count this)" by unat_arith+
    have upt: "rev [unat new_count..<unat (m_count this)] =
        unat (m_count this - 1) # rev [unat new_count..<unat (m_count this - 1)]"
      using lt pre by (cases "unat (m_count this)") auto
    have fin: "(if new_count < m_count this - 1 then new_count else m_count this - 1) = new_count"
      using True by unat_arith
    show ?thesis
    proof (cases "dtor (m_ptr this) (unat (m_count this - 1)) h")
      case None
      with True show ?thesis by (subst destruct_removed.simps) (simp add: upt)
    next
      case (Some h')
      have "destruct_removed new_count (this, h) =
          destruct_removed new_count (this\<lparr>m_count := m_count this - 1\<rparr>, h')"
        by (subst destruct_removed.simps) (simp add: True Some)
      also have "\<dots> = (case for_each (rev [unat new_count..<unat (m_count this - 1)])
             (dtor (m_ptr this)) h' of
          None \<Rightarrow> None
        | Some h'' \<Rightarrow> Some (this\<lparr>m_count := new_count\<rparr>, h''))"
      proof -
        have "destruct_removed new_count (this\<lparr>m_count := m_count this - 1\<rparr>, h') =
          (case for_each (rev [unat new_count..<unat (m_count this - 1)])
             (dtor (m_ptr this)) h' of
            None \<Rightarrow> None
          | Some h'' \<Rightarrow>
              Some (this\<lparr>m_count :=
                (if new_count < m_count this - 1 then new_count else m_count this - 1)\<rparr>, h''))"
          using "1" [OF True Some] by (simp split: option.split)
        then show ?thesis by (simp only: fin)
      qed
      finally show ?thesis
        using True Some by (simp add: upt)
    qed
  qed
qed

section \<open>Traces\<close>

subsection \<open>Projections of a trace\<close>

lemma constructions_append [simp]:
  "constructions (xs @ ys) = constructions xs @ constructions ys"
  by (induction xs rule: constructions.induct) auto

lemma destructions_append [simp]:
  "destructions (xs @ ys) = destructions xs @ destructions ys"
  by (induction xs rule: destructions.induct) auto

lemma acquisitions_append [simp]:
  "acquisitions (xs @ ys) = acquisitions xs + acquisitions ys"
  by (induction xs rule: acquisitions.induct) auto

lemma projections_Construct [simp]:
  "constructions (map (Construct a) is) = is"
  "destructions (map (Construct a) is) = []"
  "acquisitions (map (Construct a) is) = 0"
  by (induction "is") auto

lemma projections_Destruct [simp]:
  "constructions (map (Destruct a) is) = []"
  "destructions (map (Destruct a) is) = is"
  "acquisitions (map (Destruct a) is) = 0"
  by (induction "is") auto

lemma projections_release [simp]:
  "constructions (release_events p) = []"
  "destructions (release_events p) = []"
  "acquisitions (release_events p) = 0"
  by (cases p; simp add: release_events_def)+

lemma events_append: "trace h' = trace h @ evs \<Longrightarrow> events h h' = evs"
  by (simp add: events_def)

subsection \<open>What one step leaves alone\<close>

lemma dtor_Some:
  "dtor p i h = Some h' \<Longrightarrow>
   trace h' = trace h @ [Destruct (the_addr p) i] \<and> outcomes h' = outcomes h \<and>
   length (blocks h') = length (blocks h)"
  by (cases p) (auto simp: dtor_def the_addr_def split: option.splits if_splits)

lemma placement_new_Some:
  "placement_new p i v h = Some h' \<Longrightarrow>
   trace h' = trace h @ [Construct (the_addr p) i] \<and> outcomes h' = outcomes h \<and>
   length (blocks h') = length (blocks h)"
  by (cases p) (auto simp: placement_new_def the_addr_def split: option.splits if_splits)

lemma copy_construct_Some:
  "copy_construct old p i h = Some h' \<Longrightarrow>
   trace h' = trace h @ [Construct (the_addr p) i] \<and> outcomes h' = outcomes h \<and>
   length (blocks h') = length (blocks h)"
  by (auto simp: copy_construct_def split: option.splits dest: placement_new_Some)

lemma construct_init_Some:
  "construct_init env p ini i h = Some h' \<Longrightarrow>
   trace h' = trace h @ [Construct (the_addr p) i] \<and> outcomes h' = outcomes h \<and>
   length (blocks h') = length (blocks h)"
  by (auto simp: construct_init_def split: option.splits dest: placement_new_Some)

lemma release_Some:
  "release p h = Some h' \<Longrightarrow>
   trace h' = trace h @ release_events p \<and> outcomes h' = outcomes h \<and>
   length (blocks h') = length (blocks h)"
  by (cases p) (auto simp: release_def release_events_def split: option.splits)

lemma for_each_trace:
  assumes step: "\<And>i h h'. body i h = Some h' \<Longrightarrow>
      trace h' = trace h @ [ev i] \<and> outcomes h' = outcomes h \<and>
      length (blocks h') = length (blocks h)"
  shows "for_each is body h = Some h' \<Longrightarrow>
      trace h' = trace h @ map ev is \<and> outcomes h' = outcomes h \<and>
      length (blocks h') = length (blocks h)"
proof (induction "is" arbitrary: h)
  case Nil
  then show ?case by simp
next
  case (Cons i "is")
  from Cons.prems obtain h1 where h1: "body i h = Some h1" and rest: "for_each is body h1 = Some h'"
    by (auto split: option.splits)
  from step [OF h1] Cons.IH [OF rest] show ?case by simp
qed

lemma for_each_dtor_trace:
  assumes "for_each is (dtor p) h = Some h'"
  shows "trace h' = trace h @ map (Destruct (the_addr p)) is \<and> outcomes h' = outcomes h \<and>
      length (blocks h') = length (blocks h)"
  using _ assms by (rule for_each_trace) (rule dtor_Some)

lemma for_each_copy_trace:
  assumes "for_each is (copy_construct old p) h = Some h'"
  shows "trace h' = trace h @ map (Construct (the_addr p)) is \<and> outcomes h' = outcomes h \<and>
      length (blocks h') = length (blocks h)"
  using _ assms by (rule for_each_trace) (rule copy_construct_Some)

lemma for_each_init_trace:
  assumes "for_each is (construct_init env p ini) h = Some h'"
  shows "trace h' = trace h @ map (Construct (the_addr p)) is \<and> outcomes h' = outcomes h \<and>
      length (blocks h') = length (blocks h)"
  using _ assms by (rule for_each_trace) (rule construct_init_Some)

lemma for_each_default_trace:
  assumes "for_each is (\<lambda>i. placement_new p i d) h = Some h'"
  shows "trace h' = trace h @ map (Construct (the_addr p)) is \<and> outcomes h' = outcomes h \<and>
      length (blocks h') = length (blocks h)"
  using _ assms by (rule for_each_trace) (rule placement_new_Some)

lemma malloc_cases:
  "malloc env bytes h = (p, h1) \<Longrightarrow>
   (p = Null \<and> trace h1 = trace h \<and> blocks h1 = blocks h) \<or>
   (p = Addr (length (blocks h)) \<and> outcomes h = True # outcomes h1 \<and>
    blocks h1 = blocks h @ [Some (replicate (unat bytes div unat (sizeof_T env)) None)] \<and>
    trace h1 = trace h @ [Acquire (length (blocks h)) bytes])"
  by (auto simp: malloc_def split: list.splits if_splits)

lemma cells_le: "unat ((n :: Size) * sz) div unat sz \<le> unat n"
proof (cases "unat sz = 0")
  case True
  then show ?thesis by simp
next
  case False
  have "unat (n * sz) \<le> unat n * unat sz"
    by (simp add: unat_word_ariths)
  then have "unat (n * sz) div unat sz \<le> unat n * unat sz div unat sz"
    by (rule div_le_mono)
  with False show ?thesis by simp
qed

lemma read_raw: "block_at h p = Some (replicate N None) \<Longrightarrow> read p i h = None"
  by (simp add: read_def)

text \<open>A copy loop that ran to its end stayed inside the new block.\<close>

lemma for_each_copy_fits:
  assumes loop: "for_each [0..<n] (copy_construct old (Addr a)) h = Some h'"
    and new: "block_at h (Addr a) = Some (replicate N None)"
  shows "n \<le> N"
proof (cases "n = 0")
  case True
  then show ?thesis by simp
next
  case False
  then have "[0..<n] \<noteq> []" "hd [0..<n] = 0" by (simp_all add: upt_conv_Cons)
  with for_each_first [OF loop] have "copy_construct old (Addr a) 0 h \<noteq> None" by simp
  then have "read old 0 h \<noteq> None"
    by (auto simp: copy_construct_def split: option.splits)
  with read_raw [OF new] have neq: "old \<noteq> Addr a" by auto
  from loop for_each_copy [OF new neq, of "[0..<n]"]
  have "\<forall>i\<in>set [0..<n]. i < length (replicate N (None :: 'a option))"
    by (auto split: if_splits)
  then have "n - 1 < N" using False by simp
  with False show ?thesis by simp
qed

section \<open>What a call that returns has done\<close>

subsection \<open>The two loops over the field, as traces\<close>

lemma init_new_elements_Some:
  assumes "init_new_elements env new_size (this, h) = Some (this', h')"
  shows "this' = this\<lparr>m_count := (if m_count this < new_size then new_size else m_count this)\<rparr>"
    and "trace h' = trace h @
           map (Construct (the_addr (m_ptr this))) [unat (m_count this)..<unat new_size]"
    and "outcomes h' = outcomes h"
    and "length (blocks h') = length (blocks h)"
proof -
  from assms obtain loop:
    "for_each [unat (m_count this)..<unat new_size]
       (\<lambda>i. placement_new (m_ptr this) i (T_default env)) h = Some h'"
    and this': "this' = this\<lparr>m_count := (if m_count this < new_size then new_size else m_count this)\<rparr>"
    by (auto simp: init_new_elements_for_each split: option.splits)
  from this' show "this' = this\<lparr>m_count := (if m_count this < new_size then new_size else m_count this)\<rparr>" .
  from for_each_default_trace [OF loop]
  show "trace h' = trace h @
           map (Construct (the_addr (m_ptr this))) [unat (m_count this)..<unat new_size]"
    and "outcomes h' = outcomes h"
    and "length (blocks h') = length (blocks h)"
    by simp_all
qed

lemma destruct_removed_Some:
  assumes "destruct_removed new_count (this, h) = Some (this', h')"
  shows "this' = this\<lparr>m_count := (if new_count < m_count this then new_count else m_count this)\<rparr>"
    and "trace h' = trace h @
           map (Destruct (the_addr (m_ptr this))) (rev [unat new_count..<unat (m_count this)])"
    and "outcomes h' = outcomes h"
    and "length (blocks h') = length (blocks h)"
proof -
  from assms obtain loop:
    "for_each (rev [unat new_count..<unat (m_count this)]) (dtor (m_ptr this)) h = Some h'"
    and this': "this' = this\<lparr>m_count := (if new_count < m_count this then new_count else m_count this)\<rparr>"
    by (auto simp: destruct_removed_for_each split: option.splits)
  from this' show "this' = this\<lparr>m_count := (if new_count < m_count this then new_count else m_count this)\<rparr>" .
  from for_each_dtor_trace [OF loop]
  show "trace h' = trace h @
           map (Destruct (the_addr (m_ptr this))) (rev [unat new_count..<unat (m_count this)])"
    and "outcomes h' = outcomes h"
    and "length (blocks h') = length (blocks h)"
    by simp_all
qed

subsection \<open>Moving the elements to a new block\<close>

text \<open>
  The steps \<open>_grow\<close> takes once \<open>malloc\<close> has returned a block: copy, destruct, release,
  construct the new elements.
\<close>

lemma moved_control:
  assumes m: "malloc env bytes h = (Addr a, h1)"
    and copy: "for_each [0..<unat (m_count this)] (copy_construct (m_ptr this) (Addr a)) h1 = Some h2"
    and dest: "for_each [0..<unat (m_count this)] (dtor (m_ptr this)) h2 = Some h3"
    and rel: "release (m_ptr this) h3 = Some h4"
    and init: "init_new_elements env new_size (this\<lparr>m_ptr := Addr a, m_cap := new_cap\<rparr>, h4) = Some (this', h')"
  shows "this' = this\<lparr>m_ptr := Addr a, m_cap := new_cap,
            m_count := (if m_count this < new_size then new_size else m_count this)\<rparr>"
    and "a = length (blocks h)"
    and "trace h' = trace h @ [Acquire a bytes] @
            map (Construct a) [0..<unat (m_count this)] @
            map (Destruct (the_addr (m_ptr this))) [0..<unat (m_count this)] @
            release_events (m_ptr this) @
            map (Construct a) [unat (m_count this)..<unat new_size]"
    and "unat (m_count this) \<le> unat bytes div unat (sizeof_T env)"
    and "outcomes h = True # outcomes h'"
proof -
  from malloc_cases [OF m]
  have a: "a = length (blocks h)"
    and o1: "outcomes h = True # outcomes h1"
    and b1: "blocks h1 = blocks h @ [Some (replicate (unat bytes div unat (sizeof_T env)) None)]"
    and t1: "trace h1 = trace h @ [Acquire a bytes]"
    by auto
  from b1 a have new: "block_at h1 (Addr a) = Some (replicate (unat bytes div unat (sizeof_T env)) None)"
    by (simp add: block_at_def)
  from for_each_copy_fits [OF copy new]
  show "unat (m_count this) \<le> unat bytes div unat (sizeof_T env)" .
  from a show "a = length (blocks h)" .
  from init_new_elements_Some(1) [OF init]
  show "this' = this\<lparr>m_ptr := Addr a, m_cap := new_cap,
            m_count := (if m_count this < new_size then new_size else m_count this)\<rparr>"
    by simp
  from for_each_copy_trace [OF copy] for_each_dtor_trace [OF dest] release_Some [OF rel]
    init_new_elements_Some(2,3) [OF init] t1 o1
  show "trace h' = trace h @ [Acquire a bytes] @
            map (Construct a) [0..<unat (m_count this)] @
            map (Destruct (the_addr (m_ptr this))) [0..<unat (m_count this)] @
            release_events (m_ptr this) @
            map (Construct a) [unat (m_count this)..<unat new_size]"
    and "outcomes h = True # outcomes h'"
    by (simp_all add: the_addr_def)
qed

lemma Std_grow_InrE:
  assumes "Std_grow env k (this, h) = Inr (this', h')"
  obtains h1 h2 h3 h4 where
    "malloc env ((m_count this + k) * sizeof_T env) h = (Addr (length (blocks h)), h1)"
    "for_each [0..<unat (m_count this)]
       (copy_construct (m_ptr this) (Addr (length (blocks h)))) h1 = Some h2"
    "for_each [0..<unat (m_count this)] (dtor (m_ptr this)) h2 = Some h3"
    "release (m_ptr this) h3 = Some h4"
    "init_new_elements env (m_count this + k)
       (this\<lparr>m_ptr := Addr (length (blocks h)), m_cap := m_count this + k\<rparr>, h4) = Some (this', h')"
proof -
  obtain p h1 where m: "malloc env ((m_count this + k) * sizeof_T env) h = (p, h1)"
    by (cases "malloc env ((m_count this + k) * sizeof_T env) h")
  with assms have "p \<noteq> Null"
    by (auto simp: Std_grow_def Let_def)
  with malloc_cases [OF m] have p: "p = Addr (length (blocks h))" by auto
  from assms m p that show thesis
    by (auto simp: Std_grow_def Let_def split: option.splits)
qed

lemma Std_grow_control:
  assumes "Std_grow env k (this, h) = Inr (this', h')"
  shows "this' = this\<lparr>m_ptr := Addr (length (blocks h)), m_cap := m_count this + k,
            m_count := m_count this + k\<rparr>"
    and "trace h' = trace h @ [Acquire (length (blocks h)) ((m_count this + k) * sizeof_T env)] @
            map (Construct (length (blocks h))) [0..<unat (m_count this)] @
            map (Destruct (the_addr (m_ptr this))) [0..<unat (m_count this)] @
            release_events (m_ptr this) @
            map (Construct (length (blocks h))) [unat (m_count this)..<unat (m_count this + k)]"
    and "unat (m_count this) \<le> unat (m_count this + k)"
    and "outcomes h = True # outcomes h'"
proof -
  from assms obtain h1 h2 h3 h4 where steps:
    "malloc env ((m_count this + k) * sizeof_T env) h = (Addr (length (blocks h)), h1)"
    "for_each [0..<unat (m_count this)]
       (copy_construct (m_ptr this) (Addr (length (blocks h)))) h1 = Some h2"
    "for_each [0..<unat (m_count this)] (dtor (m_ptr this)) h2 = Some h3"
    "release (m_ptr this) h3 = Some h4"
    "init_new_elements env (m_count this + k)
       (this\<lparr>m_ptr := Addr (length (blocks h)), m_cap := m_count this + k\<rparr>, h4) = Some (this', h')"
    by (rule Std_grow_InrE)
  note mc = moved_control [OF steps]
  from mc(4) cells_le [of "m_count this + k" "sizeof_T env"]
  show le: "unat (m_count this) \<le> unat (m_count this + k)" by simp
  then have "m_count this \<le> m_count this + k"
    by (simp add: word_le_nat_alt)
  then have "(if m_count this < m_count this + k then m_count this + k else m_count this) =
      m_count this + k"
    by (cases "m_count this < m_count this + k") (simp_all add: order.strict_iff_order)
  with mc(1) show "this' = this\<lparr>m_ptr := Addr (length (blocks h)), m_cap := m_count this + k,
            m_count := m_count this + k\<rparr>"
    by simp
  from mc(3) show "trace h' = trace h @ [Acquire (length (blocks h)) ((m_count this + k) * sizeof_T env)] @
            map (Construct (length (blocks h))) [0..<unat (m_count this)] @
            map (Destruct (the_addr (m_ptr this))) [0..<unat (m_count this)] @
            release_events (m_ptr this) @
            map (Construct (length (blocks h))) [unat (m_count this)..<unat (m_count this + k)]" .
  from mc(5) show "outcomes h = True # outcomes h'" .
qed

lemma Future_grow_moved:
  assumes "Future_grow env multiplier k (this, h) = Inr (this', h')"
    and "m_cap this < m_count this + k"
  obtains new_capacity h1 h2 h3 h4 where
    "float_to_Size (float_times multiplier (Size_to_float (m_count this + k))) = Some new_capacity"
    "malloc env (new_capacity * sizeof_T env) h = (Addr (length (blocks h)), h1)"
    "for_each [0..<unat (m_count this)]
       (copy_construct (m_ptr this) (Addr (length (blocks h)))) h1 = Some h2"
    "for_each [0..<unat (m_count this)] (dtor (m_ptr this)) h2 = Some h3"
    "release (m_ptr this) h3 = Some h4"
    "init_new_elements env (m_count this + k)
       (this\<lparr>m_ptr := Addr (length (blocks h)), m_cap := new_capacity\<rparr>, h4) = Some (this', h')"
proof -
  from assms obtain nc where nc:
    "float_to_Size (float_times multiplier (Size_to_float (m_count this + k))) = Some nc"
    by (auto simp: Future_grow_def Let_def split: option.splits)
  obtain p h1 where m: "malloc env (nc * sizeof_T env) h = (p, h1)"
    by (cases "malloc env (nc * sizeof_T env) h")
  with assms nc have "p \<noteq> Null"
    by (auto simp: Future_grow_def Let_def)
  with malloc_cases [OF m] have p: "p = Addr (length (blocks h))" by auto
  from assms nc m p that show thesis
    by (auto simp: Future_grow_def Let_def split: option.splits)
qed

lemma Future_grow_realloc:
  assumes "Future_grow env multiplier k (this, h) = Inr (this', h')"
    and "m_cap this < m_count this + k"
  shows "\<exists>new_capacity.
      float_to_Size (float_times multiplier (Size_to_float (m_count this + k))) = Some new_capacity \<and>
      this' = this\<lparr>m_ptr := Addr (length (blocks h)), m_cap := new_capacity,
        m_count := (if m_count this < m_count this + k then m_count this + k else m_count this)\<rparr> \<and>
      trace h' = trace h @ [Acquire (length (blocks h)) (new_capacity * sizeof_T env)] @
        map (Construct (length (blocks h))) [0..<unat (m_count this)] @
        map (Destruct (the_addr (m_ptr this))) [0..<unat (m_count this)] @
        release_events (m_ptr this) @
        map (Construct (length (blocks h))) [unat (m_count this)..<unat (m_count this + k)] \<and>
      outcomes h = True # outcomes h'"
proof -
  from assms obtain new_capacity h1 h2 h3 h4 where nc:
    "float_to_Size (float_times multiplier (Size_to_float (m_count this + k))) = Some new_capacity"
    and steps:
    "malloc env (new_capacity * sizeof_T env) h = (Addr (length (blocks h)), h1)"
    "for_each [0..<unat (m_count this)]
       (copy_construct (m_ptr this) (Addr (length (blocks h)))) h1 = Some h2"
    "for_each [0..<unat (m_count this)] (dtor (m_ptr this)) h2 = Some h3"
    "release (m_ptr this) h3 = Some h4"
    "init_new_elements env (m_count this + k)
       (this\<lparr>m_ptr := Addr (length (blocks h)), m_cap := new_capacity\<rparr>, h4) = Some (this', h')"
    by (rule Future_grow_moved)
  note mc = moved_control [OF steps]
  from nc mc(1,3,5) show ?thesis by blast
qed

lemma Future_grow_reuse:
  assumes "Future_grow env multiplier k (this, h) = Inr (this', h')"
    and "\<not> m_cap this < m_count this + k"
  shows "this' = this\<lparr>m_count :=
            (if m_count this < m_count this + k then m_count this + k else m_count this)\<rparr>"
    and "trace h' = trace h @
            map (Construct (the_addr (m_ptr this))) [unat (m_count this)..<unat (m_count this + k)]"
    and "outcomes h' = outcomes h"
    and "length (blocks h') = length (blocks h)"
proof -
  from assms have init: "init_new_elements env (m_count this + k) (this, h) = Some (this', h')"
    by (auto simp: Future_grow_def Let_def split: option.splits)
  from init_new_elements_Some [OF init]
  show "this' = this\<lparr>m_count :=
            (if m_count this < m_count this + k then m_count this + k else m_count this)\<rparr>"
    and "trace h' = trace h @
            map (Construct (the_addr (m_ptr this))) [unat (m_count this)..<unat (m_count this + k)]"
    and "outcomes h' = outcomes h"
    and "length (blocks h') = length (blocks h)"
    by simp_all
qed

lemma Std_shrink_control:
  assumes "Std_shrink k (this, h) = Inr (this', h')"
  shows "this' = this\<lparr>m_count :=
            (if m_count this - k < m_count this then m_count this - k else m_count this)\<rparr>"
    and "trace h' = trace h @
            map (Destruct (the_addr (m_ptr this))) (rev [unat (m_count this - k)..<unat (m_count this)])"
    and "outcomes h' = outcomes h"
    and "length (blocks h') = length (blocks h)"
proof -
  from assms have loop: "destruct_removed (m_count this - k) (this, h) = Some (this', h')"
    by (auto simp: Std_shrink_def Let_def split: option.splits)
  from destruct_removed_Some [OF loop]
  show "this' = this\<lparr>m_count :=
            (if m_count this - k < m_count this then m_count this - k else m_count this)\<rparr>"
    and "trace h' = trace h @
            map (Destruct (the_addr (m_ptr this))) (rev [unat (m_count this - k)..<unat (m_count this)])"
    and "outcomes h' = outcomes h"
    and "length (blocks h') = length (blocks h)"
    by simp_all
qed

lemma release_block: "release p h = Some h' \<Longrightarrow> block_at h' p = None"
  by (cases p) (auto simp: release_def block_at_def split: option.splits if_splits)

lemma free_control:
  assumes "free env (this, h) = Inr (this', h')"
  shows "this' = (if NDEBUG env then this else this\<lparr>m_ptr := Sentinel\<rparr>)"
    and "trace h' = trace h @
            map (Destruct (the_addr (m_ptr this))) [0..<unat (m_count this)] @
            release_events (m_ptr this)"
    and "outcomes h' = outcomes h"
    and "block_at h' (m_ptr this) = None"
    and "NDEBUG env \<or> m_ptr this \<noteq> Sentinel"
proof -
  from assms obtain h1 where d: "for_each [0..<unat (m_count this)] (dtor (m_ptr this)) h = Some h1"
    and r: "release (m_ptr this) h1 = Some h'"
    and t: "this' = (if NDEBUG env then this else this\<lparr>m_ptr := Sentinel\<rparr>)"
    and a: "NDEBUG env \<or> m_ptr this \<noteq> Sentinel"
    by (auto simp: free_def CHI_ASSERT_def destruct_def split: option.splits if_splits)
  from t show "this' = (if NDEBUG env then this else this\<lparr>m_ptr := Sentinel\<rparr>)" .
  from a show "NDEBUG env \<or> m_ptr this \<noteq> Sentinel" .
  from release_block [OF r] show "block_at h' (m_ptr this) = None" .
  from for_each_dtor_trace [OF d] release_Some [OF r]
  show "trace h' = trace h @
            map (Destruct (the_addr (m_ptr this))) [0..<unat (m_count this)] @
            release_events (m_ptr this)"
    and "outcomes h' = outcomes h"
    by simp_all
qed

lemma Std_allocate_control:
  assumes "Std_allocate env n ini (this, h) = Inr (this', h')"
  shows "n = 0 \<Longrightarrow> this' = this\<lparr>m_ptr := Null, m_count := 0\<rparr> \<and> h' = h"
    and "n \<noteq> 0 \<Longrightarrow>
      this' = this\<lparr>m_ptr := Addr (length (blocks h)), m_count := n\<rparr> \<and>
      trace h' = trace h @ Acquire (length (blocks h)) (n * sizeof_T env) #
        map (Construct (length (blocks h))) [0..<unat n] \<and>
      outcomes h = True # outcomes h'"
    and "NDEBUG env \<or> m_ptr this = Null \<or> m_ptr this = Sentinel"
proof -
  from assms show "NDEBUG env \<or> m_ptr this = Null \<or> m_ptr this = Sentinel"
    by (auto simp: Std_allocate_def CHI_ASSERT_def split: if_splits)
  from assms show "n = 0 \<Longrightarrow> this' = this\<lparr>m_ptr := Null, m_count := 0\<rparr> \<and> h' = h"
    by (auto simp: Std_allocate_def CHI_ASSERT_def split: if_splits)
  assume n: "n \<noteq> 0"
  obtain p h1 where m: "malloc env (n * sizeof_T env) h = (p, h1)"
    by (cases "malloc env (n * sizeof_T env) h")
  with assms n have "p \<noteq> Null"
    by (auto simp: Std_allocate_def CHI_ASSERT_def split: if_splits)
  with malloc_cases [OF m] have p: "p = Addr (length (blocks h))"
    and o: "outcomes h = True # outcomes h1"
    and t: "trace h1 = trace h @ [Acquire (length (blocks h)) (n * sizeof_T env)]"
    by auto
  from assms n m p have loop: "for_each [0..<unat n] (construct_init env p ini) h1 = Some h'"
    and this': "this' = this\<lparr>m_ptr := p, m_count := n\<rparr>"
    by (auto simp: Std_allocate_def CHI_ASSERT_def split: if_splits option.splits)
  from for_each_init_trace [OF loop] this' p o t
  show "this' = this\<lparr>m_ptr := Addr (length (blocks h)), m_count := n\<rparr> \<and>
      trace h' = trace h @ Acquire (length (blocks h)) (n * sizeof_T env) #
        map (Construct (length (blocks h))) [0..<unat n] \<and>
      outcomes h = True # outcomes h'"
    by (simp add: the_addr_def)
qed

lemma Future_allocate_control:
  assumes "Future_allocate env multiplier n ini (this, h) = Inr (this', h')"
  shows "\<exists>c. float_to_Size (float_times multiplier (Size_to_float n)) = Some c \<and>
      (if n = 0 then this' = this\<lparr>m_ptr := Null, m_count := 0, m_cap := c\<rparr> \<and> h' = h
       else this' = this\<lparr>m_ptr := Addr (length (blocks h)), m_count := n, m_cap := c\<rparr> \<and>
         trace h' = trace h @ Acquire (length (blocks h)) (c * sizeof_T env) #
           map (Construct (length (blocks h))) [0..<unat n] \<and>
         outcomes h = True # outcomes h')"
proof -
  from assms obtain c where c: "float_to_Size (float_times multiplier (Size_to_float n)) = Some c"
    by (auto simp: Future_allocate_def split: option.splits)
  show ?thesis
  proof (cases "n = 0")
    case True
    with assms c show ?thesis
      by (auto simp: Future_allocate_def Let_def)
  next
    case False
    obtain p h1 where m: "malloc env (c * sizeof_T env) h = (p, h1)"
      by (cases "malloc env (c * sizeof_T env) h")
    with assms c False have "p \<noteq> Null"
      by (auto simp: Future_allocate_def Let_def)
    with malloc_cases [OF m] have p: "p = Addr (length (blocks h))"
      and o: "outcomes h = True # outcomes h1"
      and t: "trace h1 = trace h @ [Acquire (length (blocks h)) (c * sizeof_T env)]"
      by auto
    from assms c False m p have loop: "for_each [0..<unat n] (construct_init env p ini) h1 = Some h'"
      and this': "this' = this\<lparr>m_cap := c, m_ptr := p, m_count := n\<rparr>"
      by (auto simp: Future_allocate_def Let_def split: option.splits)
    from for_each_init_trace [OF loop] this' p o t c False
    show ?thesis
      by (simp add: the_addr_def)
  qed
qed

section \<open>Rounding to \<open>float\<close>\<close>

text \<open>
  From 1 on, a number of exponent \<open>e\<close> is rounded to a multiple of \<open>2^e / 2^23\<close>:
  the rounding stays in the binade or reaches the next power of two, and moves the number
  by at most the \<open>2^24\<close>th part of itself. A multiplier that is a \<open>float\<close> above 1
  is at least \<open>1 + 2^(- 23)\<close>, which takes a rounded count to the next \<open>float\<close> at
  least, past the count itself.
\<close>

lemma exponent_bounds:
  assumes "1 \<le> x"
  shows "0 \<le> exponent x" and "2 ^ nat (exponent x) \<le> x" and "x < 2 * 2 ^ nat (exponent x)"
proof -
  from assms have f: "0 < \<lfloor>x\<rfloor>" by simp
  from assms have e: "exponent x = bitlen \<lfloor>x\<rfloor> - 1" by (simp add: exponent_def)
  from bitlen_bounds [OF f]
  have lo: "2 ^ nat (bitlen \<lfloor>x\<rfloor> - 1) \<le> \<lfloor>x\<rfloor>" and hi: "\<lfloor>x\<rfloor> < 2 ^ nat (bitlen \<lfloor>x\<rfloor>)"
    by simp_all
  from f hi have b: "0 < bitlen \<lfloor>x\<rfloor>" by (cases "0 < bitlen \<lfloor>x\<rfloor>") simp_all
  with e show "0 \<le> exponent x" by simp
  have "(2 :: rat) ^ nat (exponent x) = of_int (2 ^ nat (bitlen \<lfloor>x\<rfloor> - 1))"
    by (simp add: e)
  also from lo have "\<dots> \<le> of_int \<lfloor>x\<rfloor>" by (simp only: of_int_le_iff)
  also have "\<dots> \<le> x" by simp
  finally show "2 ^ nat (exponent x) \<le> x" .
  from b have n: "nat (bitlen \<lfloor>x\<rfloor>) = Suc (nat (exponent x))" by (simp add: e)
  from hi have "\<lfloor>x\<rfloor> + 1 \<le> 2 ^ nat (bitlen \<lfloor>x\<rfloor>)" by simp
  then have "(of_int (\<lfloor>x\<rfloor> + 1) :: rat) \<le> of_int (2 ^ nat (bitlen \<lfloor>x\<rfloor>))"
    by (simp only: of_int_le_iff)
  then have "of_int \<lfloor>x\<rfloor> + 1 \<le> (2 :: rat) * 2 ^ nat (exponent x)" by (simp add: n)
  moreover have "x < of_int \<lfloor>x\<rfloor> + 1" by linarith
  ultimately show "x < 2 * 2 ^ nat (exponent x)" by linarith
qed

lemma nearest_even_near: "\<bar>of_int (nearest_even k) - k\<bar> \<le> 1 / 2"
proof -
  have "of_int \<lfloor>k\<rfloor> \<le> k" "k < of_int \<lfloor>k\<rfloor> + 1" by linarith+
  then show ?thesis by (auto simp: nearest_even_def Let_def)
qed

lemma nearest_even_ge:
  assumes "of_int j \<le> k"
  shows "j \<le> nearest_even k"
proof -
  from assms have "j \<le> \<lfloor>k\<rfloor>" by (simp add: le_floor_iff)
  then show ?thesis by (auto simp: nearest_even_def Let_def)
qed

lemma nearest_multiple_near:
  assumes "0 < u"
  shows "x - u / 2 \<le> of_int (nearest_even (x / u)) * u"
    and "of_int (nearest_even (x / u)) * u \<le> x + u / 2"
proof -
  from nearest_even_near [of "x / u"]
  have "x / u - 1 / 2 \<le> of_int (nearest_even (x / u))"
    and "of_int (nearest_even (x / u)) \<le> x / u + 1 / 2"
    by linarith+
  with assms show "x - u / 2 \<le> of_int (nearest_even (x / u)) * u"
    and "of_int (nearest_even (x / u)) * u \<le> x + u / 2"
    by (simp_all add: field_simps)
qed

lemma nearest_multiple_ge:
  assumes "0 < u" and "of_int j * u \<le> x"
  shows "of_int j * u \<le> of_int (nearest_even (x / u)) * u"
proof -
  from assms have "of_int j \<le> x / u" by (simp add: pos_le_divide_eq)
  then have "j \<le> nearest_even (x / u)" by (rule nearest_even_ge)
  then have "(of_int j :: rat) \<le> of_int (nearest_even (x / u))" by (simp only: of_int_le_iff)
  with assms(1) show ?thesis by (simp only: mult_le_cancel_right) simp
qed

lemma float_round_normal:
  assumes "1 \<le> x"
  shows "float_round x =
    of_int (nearest_even (x / (2 ^ nat (exponent x) / 2 ^ 23))) * (2 ^ nat (exponent x) / 2 ^ 23)"
proof -
  from exponent_bounds(1) [OF assms] have m: "max (exponent x) (- 126) = exponent x" by simp
  have "(2 :: rat) powi (exponent x - 23) = 2 powi exponent x / 2 powi 23"
    by (simp add: power_int_diff)
  also from exponent_bounds(1) [OF assms] have "(2 :: rat) powi exponent x = 2 ^ nat (exponent x)"
    by (simp add: power_int_def)
  finally have eq: "(2 :: rat) powi (exponent x - 23) = 2 ^ nat (exponent x) / 2 ^ 23"
    by simp
  from assms have nz: "x \<noteq> 0" by auto
  show ?thesis
    unfolding float_round_def Let_def m eq by (simp only: nz if_False)
qed

lemma float_round_error:
  assumes "1 \<le> x"
  shows "\<bar>float_round x - x\<bar> \<le> x / 2 ^ 24"
proof -
  define u :: rat where "u = 2 ^ nat (exponent x) / 2 ^ 23"
  have u: "0 < u" by (simp add: u_def)
  have f: "float_round x = of_int (nearest_even (x / u)) * u"
    unfolding u_def by (rule float_round_normal [OF assms])
  from exponent_bounds(2) [OF assms] have "u / 2 \<le> x / 2 ^ 24" by (simp add: u_def)
  with nearest_multiple_near [OF u, of x] show ?thesis
    unfolding f by linarith
qed

lemma float_round_binade:
  assumes "1 \<le> x"
  shows "2 ^ nat (exponent x) \<le> float_round x"
proof -
  define u :: rat where "u = 2 ^ nat (exponent x) / 2 ^ 23"
  have u: "0 < u" by (simp add: u_def)
  have f: "float_round x = of_int (nearest_even (x / u)) * u"
    unfolding u_def by (rule float_round_normal [OF assms])
  have p: "2 ^ nat (exponent x) = of_int (2 ^ 23) * u" by (simp add: u_def)
  from exponent_bounds(2) [OF assms] have "of_int (2 ^ 23) * u \<le> x"
    unfolding p [symmetric] .
  then have "of_int (2 ^ 23) * u \<le> of_int (nearest_even (x / u)) * u"
    by (rule nearest_multiple_ge [OF u])
  then show ?thesis
    unfolding f p .
qed

lemma float_round_ge_one:
  assumes "1 \<le> x"
  shows "1 \<le> float_round x"
proof -
  have "(1 :: rat) \<le> 2 ^ nat (exponent x)" by simp
  with float_round_binade [OF assms] show ?thesis by linarith
qed

lemma float_round_keeps_room:
  assumes n: "1 \<le> n" and m: "1 + 1 / 2 ^ 23 \<le> m"
  shows "n \<le> float_round (m * float_round n)"
proof -
  define e where "e = nat (exponent n)"
  define u :: rat where "u = 2 ^ e / 2 ^ 23"
  define N where "N = nearest_even (n / u)"
  define r where "r = float_round n"
  define x where "x = m * r"
  define e' where "e' = nat (exponent x)"
  have u: "0 < u" by (simp add: u_def)
  have r: "r = of_int N * u"
    unfolding r_def N_def u_def e_def by (rule float_round_normal [OF n])
  from float_round_binade [OF n] have re: "2 ^ e \<le> r" by (simp add: r_def e_def)
  from float_round_ge_one [OF n] have r1: "1 \<le> r" by (simp add: r_def)
  from exponent_bounds(3) [OF n] have ne: "n < 2 * 2 ^ e" by (simp add: e_def)
  from nearest_multiple_near(1) [OF u, of n] have nN: "n \<le> of_int N * u + u / 2"
    unfolding N_def by linarith
  from re have "u \<le> r / 2 ^ 23" by (simp add: u_def divide_right_mono)
  moreover from m r1 have "r + r / 2 ^ 23 \<le> x"
    using mult_right_mono [of "1 + 1 / 2 ^ 23" m r] by (simp add: x_def algebra_simps)
  ultimately have xN: "of_int (N + 1) * u \<le> x" by (simp add: r algebra_simps)
  from r1 m have rx: "r \<le> x" using mult_right_mono [of 1 m r] by (simp add: x_def)
  with r1 have x1: "1 \<le> x" by simp
  from exponent_bounds(3) [OF x1] have "x < 2 ^ Suc e'" by (simp add: e'_def)
  with re rx have "(2 :: rat) ^ e < 2 ^ Suc e'" by linarith
  then have "e < Suc e'" by (simp only: power_strict_increasing_iff) 
  then consider "e' = e" | "Suc e \<le> e'" by linarith
  then have "n \<le> float_round x"
  proof cases
    case 1
    have f: "float_round x = of_int (nearest_even (x / u)) * u"
      unfolding u_def 1 [symmetric] e'_def by (rule float_round_normal [OF x1])
    from xN have "of_int (N + 1) * u \<le> of_int (nearest_even (x / u)) * u"
      by (rule nearest_multiple_ge [OF u])
    then have "of_int N * u + u \<le> float_round x" by (simp add: f algebra_simps)
    with nN u show ?thesis by linarith
  next
    case 2
    then have "(2 :: rat) ^ Suc e \<le> 2 ^ e'" by (simp only: power_increasing_iff) 
    also from float_round_binade [OF x1] have "2 ^ e' \<le> float_round x" by (simp add: e'_def)
    finally show ?thesis using ne by simp
  qed
  then show ?thesis by (simp add: x_def r_def)
qed

lemma binary32_above_one:
  assumes "binary32 m" and "1 < m"
  shows "1 + 1 / 2 ^ 23 \<le> m"
proof -
  from assms have m1: "1 \<le> m" by simp
  define e where "e = nat (exponent m)"
  define N where "N = nearest_even (m / (2 ^ e / 2 ^ 23))"
  from assms(1) have "float_round m = m" by (simp add: binary32_def)
  with float_round_normal [OF m1] have mN: "m = of_int N * (2 ^ e / 2 ^ 23)"
    by (simp add: N_def e_def)
  show ?thesis
  proof (cases "e = 0")
    case True
    with mN have eq: "m * 2 ^ 23 = of_int N" by simp
    with assms(2) have "(of_int (2 ^ 23) :: rat) < of_int N" by simp
    then have "2 ^ 23 < N" by (simp only: of_int_less_iff)
    then have "2 ^ 23 + 1 \<le> N" by simp
    then have "(of_int (2 ^ 23 + 1) :: rat) \<le> of_int N" by (simp only: of_int_le_iff)
    with eq show ?thesis by (simp add: field_simps)
  next
    case False
    then have "1 \<le> e" by simp
    then have "(2 :: rat) ^ 1 \<le> 2 ^ e" by (rule power_increasing) simp
    with exponent_bounds(2) [OF m1] have "2 \<le> m" by (simp add: e_def)
    then show ?thesis by simp
  qed
qed

lemma float_round_bounds:
  assumes m: "1 \<le> m" and n: "1 \<le> n"
  shows "m * n * (1 - 1 / 2 ^ 24)\<^sup>2 \<le> float_round (m * float_round n)"
    and "float_round (m * float_round n) \<le> m * n * (1 + 1 / 2 ^ 24)\<^sup>2"
proof -
  define r where "r = float_round n"
  define a :: rat where "a = 1 / 2 ^ 24"
  from float_round_ge_one [OF n] have r1: "1 \<le> r" by (simp add: r_def)
  with m have x1: "1 \<le> m * r" using mult_mono [of 1 m 1 r] by simp
  have d: "y * (1 - a) = y - y * a" "y * (1 + a) = y + y * a" for y
    by (simp_all add: algebra_simps)
  from float_round_error [OF n] have "\<bar>r - n\<bar> \<le> n * a" by (simp add: r_def a_def)
  then have rn: "n * (1 - a) \<le> r" "r \<le> n * (1 + a)"
    unfolding d by linarith+
  from float_round_error [OF x1] have "\<bar>float_round (m * r) - m * r\<bar> \<le> m * r * a"
    by (simp add: a_def)
  then have px: "m * r * (1 - a) \<le> float_round (m * r)"
    "float_round (m * r) \<le> m * r * (1 + a)"
    unfolding d by linarith+
  have a: "0 \<le> 1 - a" "0 \<le> 1 + a" by (simp_all add: a_def)
  from m have m0: "0 \<le> m" by simp
  have "m * n * (1 - a)\<^sup>2 = m * (n * (1 - a)) * (1 - a)" by (simp add: power2_eq_square)
  also have "\<dots> \<le> m * r * (1 - a)"
    using rn(1) m0 a(1) by (intro mult_right_mono mult_left_mono)
  also note px(1)
  finally show "m * n * (1 - 1 / 2 ^ 24)\<^sup>2 \<le> float_round (m * float_round n)"
    by (simp add: a_def r_def)
  have "float_round (m * r) \<le> m * r * (1 + a)" by (rule px(2))
  also have "\<dots> \<le> m * (n * (1 + a)) * (1 + a)"
    using rn(2) m0 a(2) by (intro mult_right_mono mult_left_mono)
  also have "\<dots> = m * n * (1 + a)\<^sup>2" by (simp add: power2_eq_square)
  finally show "float_round (m * float_round n) \<le> m * n * (1 + 1 / 2 ^ 24)\<^sup>2"
    by (simp add: a_def r_def)
qed

section \<open>Orders, checks and capacities\<close>

lemma upt_join: "i \<le> j \<Longrightarrow> j \<le> k \<Longrightarrow> [i..<j] @ [j..<k] = [i..<k]"
  by (metis le_Suc_ex upt_add_eq_append)

lemma grow_constructions:
  assumes "grow cls env k (this, h) = Inr (this', h')"
  shows "constructions (events h h') =
     [(case cls of
         ExactFit \<Rightarrow> 0
       | Amortized m \<Rightarrow> if capacity this < count this + k then 0 else unat (count this))
      ..<unat (count this')]"
proof (cases cls)
  case ExactFit
  with assms have g: "Std_grow env k (this, h) = Inr (this', h')"
    by (simp add: grow_def)
  note c = Std_grow_control [OF g]
  from events_append [OF c(2)] c(1,3) ExactFit show ?thesis
    by (simp add: count_def upt_join)
next
  case (Amortized m)
  with assms have g: "Future_grow env m k (this, h) = Inr (this', h')"
    by (simp add: grow_def)
  show ?thesis
  proof (cases "m_cap this < m_count this + k")
    case True
    from Future_grow_realloc [OF g True] obtain nc where
      t: "this' = this\<lparr>m_ptr := Addr (length (blocks h)), m_cap := nc,
        m_count := (if m_count this < m_count this + k then m_count this + k else m_count this)\<rparr>"
      and tr: "trace h' = trace h @ [Acquire (length (blocks h)) (nc * sizeof_T env)] @
        map (Construct (length (blocks h))) [0..<unat (m_count this)] @
        map (Destruct (the_addr (m_ptr this))) [0..<unat (m_count this)] @
        release_events (m_ptr this) @
        map (Construct (length (blocks h))) [unat (m_count this)..<unat (m_count this + k)]"
      by blast
    have "[0..<unat (m_count this)] @ [unat (m_count this)..<unat (m_count this + k)] =
        [0..<unat (m_count this')]"
    proof (cases "m_count this < m_count this + k")
      case True
      then have "unat (m_count this) \<le> unat (m_count this + k)"
        by (simp add: word_less_nat_alt)
      with True t show ?thesis by (simp add: upt_join)
    next
      case False
      then have "unat (m_count this + k) \<le> unat (m_count this)"
        by (simp add: word_less_nat_alt)
      with False t show ?thesis by simp
    qed
    with events_append [OF tr] True Amortized show ?thesis
      by (simp add: count_def capacity_def)
  next
    case False
    note c = Future_grow_reuse [OF g False]
    have "[unat (m_count this)..<unat (m_count this + k)] =
        [unat (m_count this)..<unat (m_count this')]"
    proof (cases "m_count this < m_count this + k")
      case True
      with c(1) show ?thesis by simp
    next
      case False
      then have "unat (m_count this + k) \<le> unat (m_count this)"
        by (simp add: word_less_nat_alt)
      with False c(1) show ?thesis by simp
    qed
    with events_append [OF c(2)] False Amortized show ?thesis
      by (simp add: count_def capacity_def)
  qed
qed

lemma shrink_destructions:
  assumes "shrink cls k (this, h) = Inr (this', h')"
  shows "destructions (events h h') = rev [unat (count this')..<unat (count this)]"
proof -
  from assms have s: "Std_shrink k (this, h) = Inr (this', h')"
    by (simp add: shrink_def)
  note c = Std_shrink_control [OF s]
  have "[unat (m_count this - k)..<unat (m_count this)] =
      [unat (m_count this')..<unat (m_count this)]"
  proof (cases "m_count this - k < m_count this")
    case True
    with c(1) show ?thesis by simp
  next
    case False
    then have "unat (m_count this) \<le> unat (m_count this - k)"
      by (simp add: word_less_nat_alt)
    with False c(1) show ?thesis by simp
  qed
  with events_append [OF c(2)] show ?thesis
    by (simp add: count_def)
qed

lemma shrink_past_zero:
  assumes "m_count this < k"
  shows "Std_shrink k (this, h) = Inr (this, h)"
proof -
  from assms have "\<not> m_count this - k < m_count this" by unat_arith
  then have "destruct_removed (m_count this - k) (this, h) = Some (this, h)"
    by (subst destruct_removed.simps) simp
  then show ?thesis by (simp add: Std_shrink_def)
qed

lemma failure_leaves_object:
  "Std_allocate env n ini (this, h) = Inl (AllocException (this', h')) \<Longrightarrow>
     this' = this \<and> blocks h' = blocks h \<and> trace h' = trace h"
  "Std_grow env k (this, h) = Inl (AllocException (this', h')) \<Longrightarrow>
     this' = this \<and> blocks h' = blocks h \<and> trace h' = trace h"
  "Future_grow env multiplier k (this, h) = Inl (AllocException (this', h')) \<Longrightarrow>
     this' = this \<and> blocks h' = blocks h \<and> trace h' = trace h"
proof -
  show "Std_allocate env n ini (this, h) = Inl (AllocException (this', h')) \<Longrightarrow>
     this' = this \<and> blocks h' = blocks h \<and> trace h' = trace h"
    by (auto simp: Std_allocate_def CHI_ASSERT_def split: if_splits prod.splits option.splits
        dest!: malloc_cases)
  show "Std_grow env k (this, h) = Inl (AllocException (this', h')) \<Longrightarrow>
     this' = this \<and> blocks h' = blocks h \<and> trace h' = trace h"
    by (auto simp: Std_grow_def Let_def split: if_splits prod.splits option.splits
        dest!: malloc_cases)
  show "Future_grow env multiplier k (this, h) = Inl (AllocException (this', h')) \<Longrightarrow>
     this' = this \<and> blocks h' = blocks h \<and> trace h' = trace h"
    by (auto simp: Future_grow_def Let_def split: if_splits prod.splits option.splits
        dest!: malloc_cases)
qed

lemma float_to_Size_floor:
  assumes "float_to_Size x = Some c" and "0 \<le> x"
  shows "int (unat c) = \<lfloor>x\<rfloor>"
proof -
  from assms have r: "0 \<le> \<lfloor>x\<rfloor>" "\<lfloor>x\<rfloor> < 2 ^ 64" and c: "c = word_of_int \<lfloor>x\<rfloor>"
    by (auto simp: float_to_Size_def Let_def split: if_splits)
  from r have "uint (word_of_int \<lfloor>x\<rfloor> :: Size) = \<lfloor>x\<rfloor>"
    by (simp add: uint_word_of_int)
  with c show ?thesis by simp
qed

lemma float_product_keeps_room:
  assumes b: "binary32 multiplier" and m: "1 < multiplier"
    and c: "float_to_Size (float_times multiplier (Size_to_float n)) = Some c"
  shows "n \<le> c"
proof (cases "n = 0")
  case True
  then show ?thesis by simp
next
  case False
  then have "uint n \<noteq> 0" by (simp add: uint_0_iff)
  then have "1 \<le> uint n" using uint_ge_0 [of n] by linarith
  then have n: "(1 :: rat) \<le> of_int (uint n)" by (simp only: of_int_1_le_iff)
  from binary32_above_one [OF b m] have "1 + 1 / 2 ^ 23 \<le> multiplier" .
  with n have le: "of_int (uint n) \<le> float_times multiplier (Size_to_float n)"
    unfolding float_times_def Size_to_float_def by (rule float_round_keeps_room)
  with n have nonneg: "0 \<le> float_times multiplier (Size_to_float n)" by linarith
  have "uint n = \<lfloor>(of_int (uint n) :: rat)\<rfloor>" by (simp only: floor_of_int)
  also have "\<dots> \<le> \<lfloor>float_times multiplier (Size_to_float n)\<rfloor>" using le by (rule floor_mono)
  also have "\<dots> = int (unat c)" using float_to_Size_floor [OF c nonneg] by simp
  finally show ?thesis by (simp add: word_le_def)
qed

lemma float_product_bounds:
  assumes m: "1 \<le> multiplier"
    and c: "float_to_Size (float_times multiplier (Size_to_float n)) = Some c"
  shows "multiplier * of_int (uint n) * (1 - 1 / 2 ^ 24)\<^sup>2 - 1 < of_int (uint c)"
    and "of_int (uint c) \<le> multiplier * of_int (uint n) * (1 + 1 / 2 ^ 24)\<^sup>2"
proof -
  define p where "p = float_times multiplier (Size_to_float n)"
  define v :: rat where "v = of_int (uint n)"
  have p: "p = float_round (multiplier * float_round v)"
    by (simp only: p_def v_def float_times_def Size_to_float_def)
  have b: "multiplier * v * (1 - 1 / 2 ^ 24)\<^sup>2 \<le> p \<and> p \<le> multiplier * v * (1 + 1 / 2 ^ 24)\<^sup>2 \<and> 0 \<le> p"
  proof (cases "n = 0")
    case True
    then have "v = 0" by (simp add: v_def)
    then show ?thesis by (simp add: p float_round_def)
  next
    case False
    then have "uint n \<noteq> 0" by (simp add: uint_0_iff)
    then have "1 \<le> uint n" using uint_ge_0 [of n] by linarith
    then have v: "1 \<le> v" unfolding v_def by (simp only: of_int_1_le_iff)
    from float_round_ge_one [OF v] m have "1 \<le> multiplier * float_round v"
      using mult_mono [of 1 multiplier 1 "float_round v"] by simp
    then have "1 \<le> p" unfolding p by (rule float_round_ge_one)
    with float_round_bounds [OF m v] show ?thesis by (simp add: p)
  qed
  then have "0 \<le> float_times multiplier (Size_to_float n)" by (simp add: p_def)
  from float_to_Size_floor [OF c this] have "uint c = \<lfloor>p\<rfloor>" by (simp add: p_def)
  then have c: "(of_int (uint c) :: rat) = of_int \<lfloor>p\<rfloor>" by (simp only:)
  have f: "of_int \<lfloor>p\<rfloor> \<le> p" "p - 1 < of_int \<lfloor>p\<rfloor>" by linarith+
  from b f show "multiplier * of_int (uint n) * (1 - 1 / 2 ^ 24)\<^sup>2 - 1 < of_int (uint c)"
    unfolding c v_def [symmetric] by linarith
  from b f show "of_int (uint c) \<le> multiplier * of_int (uint n) * (1 + 1 / 2 ^ 24)\<^sup>2"
    unfolding c v_def [symmetric] by linarith
qed

lemma float_product_exact:
  assumes m: "0 \<le> multiplier"
    and n: "binary32 (of_int (uint n))" and p: "binary32 (multiplier * of_int (uint n))"
    and c: "float_to_Size (float_times multiplier (Size_to_float n)) = Some c"
  shows "uint c = \<lfloor>multiplier * of_int (uint n)\<rfloor>"
proof -
  from n p have e: "float_times multiplier (Size_to_float n) = multiplier * of_int (uint n)"
    by (simp only: float_times_def Size_to_float_def binary32_def)
  have "(0 :: rat) \<le> of_int (uint n)" by (simp only: of_int_0_le_iff uint_ge_0)
  with m have "0 \<le> multiplier * of_int (uint n)" by (rule mult_nonneg_nonneg)
  with c e float_to_Size_floor [of "multiplier * of_int (uint n)" c] show ?thesis
    by simp
qed

text \<open>
  The products \<open>1.4f * 5\<close>, \<open>1.0f * 16777217\<close> and \<open>1.5f * 16777217\<close>, as the
  capacities they make; \<open>1.4f\<close> is the \<open>float\<close> nearest to 1.4.
\<close>

lemma float_products:
  "float_round (14 / 10) = 11744051 / 8388608"
  "float_to_Size (float_times (11744051 / 8388608) (Size_to_float 5)) = Some 7"
  "float_to_Size (float_times 1 (Size_to_float 16777217)) = Some 16777216"
  "float_to_Size (float_times (3 / 2) (Size_to_float 16777217)) = Some 25165824"
  by code_simp+

lemma amortized_call_keeps_room:
  assumes b: "binary32 multiplier" and m: "1 < multiplier"
    and inv: "m_count this \<le> m_cap this"
    and c: "call (Amortized multiplier) env r (this, h) = Inr (this', h')"
  shows "m_count this' \<le> m_cap this'"
proof -
  have grow_ok: "m_count t' \<le> m_cap t'"
    if g: "Future_grow env multiplier k (this, h) = Inr (t', g')" for k t' g'
  proof (cases "m_cap this < m_count this + k")
    case True
    from Future_grow_realloc [OF g True] obtain nc where
      nc: "float_to_Size (float_times multiplier (Size_to_float (m_count this + k))) = Some nc"
      and t: "t' = this\<lparr>m_ptr := Addr (length (blocks h)), m_cap := nc,
        m_count := (if m_count this < m_count this + k then m_count this + k else m_count this)\<rparr>"
      by blast
    from float_product_keeps_room [OF b m nc] have "m_count this + k \<le> nc" .
    moreover from inv True have "m_count this \<le> m_count this + k" by simp
    ultimately show ?thesis using t by auto
  next
    case False
    from Future_grow_reuse(1) [OF g False] inv False show ?thesis by auto
  qed
  have shrink_ok: "m_count t' \<le> m_cap t'"
    if s: "Std_shrink k (this, h) = Inr (t', g')" for k t' g'
    using Std_shrink_control(1) [OF s] inv by auto
  show ?thesis
  proof (cases r)
    case (Allocate n ini)
    with c have a: "Future_allocate env multiplier n ini (this, h) = Inr (this', h')"
      by (simp add: allocate_def)
    from Future_allocate_control [OF a] obtain cp where
      cp: "float_to_Size (float_times multiplier (Size_to_float n)) = Some cp"
      and r: "if n = 0 then this' = this\<lparr>m_ptr := Null, m_count := 0, m_cap := cp\<rparr> \<and> h' = h
       else this' = this\<lparr>m_ptr := Addr (length (blocks h)), m_count := n, m_cap := cp\<rparr> \<and>
         trace h' = trace h @ Acquire (length (blocks h)) (cp * sizeof_T env) #
           map (Construct (length (blocks h))) [0..<unat n] \<and>
         outcomes h = True # outcomes h'"
      by blast
    from float_product_keeps_room [OF b m cp] r show ?thesis
      by (auto split: if_splits)
  next
    case (Grow k)
    with c show ?thesis by (simp add: grow_def grow_ok)
  next
    case (Shrink k)
    with c show ?thesis by (simp add: shrink_def shrink_ok)
  next
    case (Resize n)
    with c inv show ?thesis
      by (auto simp: resize_def grow_def shrink_def count_def grow_ok shrink_ok split: if_splits)
  next
    case Free
    with c have f: "free env (this, h) = Inr (this', h')" by simp
    from free_control(1) [OF f] inv show ?thesis by (auto split: if_splits)
  qed
qed

lemma amortized_run_keeps_room:
  assumes "binary32 multiplier" and "1 < multiplier"
  shows "m_count this \<le> m_cap this \<Longrightarrow>
    run (Amortized multiplier) env reqs (this, h) = Inr (this', h') \<Longrightarrow>
    m_count this' \<le> m_cap this'"
proof (induction reqs arbitrary: this h)
  case Nil
  then show ?case by simp
next
  case (Cons r reqs)
  from Cons.prems(2) obtain t g where
    c: "call (Amortized multiplier) env r (this, h) = Inr (t, g)"
    and rest: "run (Amortized multiplier) env reqs (t, g) = Inr (this', h')"
    by (auto split: sum.splits)
  from amortized_call_keeps_room [OF assms Cons.prems(1) c] rest
  show ?case by (rule Cons.IH)
qed

section \<open>The elements of a buffer\<close>

subsection \<open>Frames\<close>

lemma for_each_frame:
  assumes step: "\<And>i h h'. body i h = Some h' \<Longrightarrow> f h' = f h"
  shows "for_each is body h = Some h' \<Longrightarrow> f h' = f h"
proof (induction "is" arbitrary: h)
  case Nil
  then show ?case by simp
next
  case (Cons i "is")
  from Cons.prems obtain h1 where h1: "body i h = Some h1" and rest: "for_each is body h1 = Some h'"
    by (auto split: option.splits)
  from step [OF h1] Cons.IH [OF rest] show ?case by simp
qed

lemma dtor_frame: "dtor p i h = Some h' \<Longrightarrow> q \<noteq> p \<Longrightarrow> block_at h' q = block_at h q"
  by (cases p; cases q)
    (auto simp: dtor_def block_at_def nth_list_update split: option.splits if_splits)

lemma for_each_dtor_frame:
  assumes "for_each is (dtor p) h = Some h'" and "q \<noteq> p"
  shows "block_at h' q = block_at h q"
  using _ assms(1)
proof (rule for_each_frame)
  fix i h h' assume "dtor p i h = Some h'"
  from dtor_frame [OF this assms(2)] show "block_at h' q = block_at h q" .
qed

lemma release_frame: "release p h = Some h' \<Longrightarrow> q \<noteq> p \<Longrightarrow> block_at h' q = block_at h q"
  by (cases p; cases q)
    (auto simp: release_def block_at_def nth_list_update split: option.splits if_splits)

lemma read_malloc:
  assumes "malloc env bytes h = (p, h1)" and "old \<noteq> Addr (length (blocks h))"
  shows "read old i h1 = read old i h"
proof (cases old)
  case (Addr b)
  with assms(2) have "b \<noteq> length (blocks h)" by simp
  with malloc_cases [OF assms(1)] Addr show ?thesis
    by (auto simp: read_def block_at_def nth_append)
qed (simp_all add: read_def block_at_def)

lemma block_at_updated:
  "block_at h (Addr a) = Some cells \<Longrightarrow>
   block_at (h\<lparr>blocks := (blocks h)[a := b], trace := t\<rparr>) (Addr a) = b"
  by (simp add: block_at_Addr block_at_update)

subsection \<open>The new block after the elements have moved\<close>

lemma moved_heap:
  assumes m: "malloc env bytes h = (Addr a, h1)"
    and copy: "for_each [0..<unat (m_count this)] (copy_construct (m_ptr this) (Addr a)) h1 = Some h2"
    and dest: "for_each [0..<unat (m_count this)] (dtor (m_ptr this)) h2 = Some h3"
    and rel: "release (m_ptr this) h3 = Some h4"
    and init: "init_new_elements env new_size (this\<lparr>m_ptr := Addr a, m_cap := new_cap\<rparr>, h4) = Some (this', h')"
    and old: "m_ptr this \<noteq> Addr (length (blocks h))"
  shows "\<exists>cells'. block_at h' (Addr a) = Some cells' \<and>
      (\<forall>i<unat (m_count this). i < length cells' \<and> cells' ! i = read (m_ptr this) i h \<and>
          read (m_ptr this) i h \<noteq> None) \<and>
      (\<forall>i. unat (m_count this) \<le> i \<and> i < unat new_size \<longrightarrow>
          i < length cells' \<and> cells' ! i = Some (T_default env))"
proof -
  let ?N = "unat bytes div unat (sizeof_T env)"
  let ?c = "unat (m_count this)"
  from malloc_cases [OF m]
  have a: "a = length (blocks h)"
    and b1: "blocks h1 = blocks h @ [Some (replicate ?N None)]"
    by auto
  from b1 a have new: "block_at h1 (Addr a) = Some (replicate ?N None)"
    by (simp add: block_at_def)
  from old a have neq: "m_ptr this \<noteq> Addr a" by simp
  have rd: "read (m_ptr this) i h1 = read (m_ptr this) i h" for i
    using m old by (rule read_malloc)
  let ?cells2 = "overwrite [0..<?c] (\<lambda>i. read (m_ptr this) i h1) (replicate ?N None)"
  from copy for_each_copy [OF new neq, of "[0..<?c]"]
  have ok2: "\<forall>i\<in>set [0..<?c]. i < ?N \<and> read (m_ptr this) i h1 \<noteq> None"
    and h2: "h2 = h1\<lparr>blocks := (blocks h1)[a := Some ?cells2],
                  trace := trace h1 @ map (Construct a) [0..<?c]\<rparr>"
    by (auto split: if_splits)
  from h2 new have "block_at h2 (Addr a) = Some ?cells2"
    by (simp add: block_at_updated)
  with for_each_dtor_frame [OF dest, of "Addr a"] release_frame [OF rel, of "Addr a"] neq
  have blk4: "block_at h4 (Addr a) = Some ?cells2" by simp
  let ?cells' = "overwrite [?c..<unat new_size] (\<lambda>_. Some (T_default env)) ?cells2"
  from init have loop: "for_each [?c..<unat new_size]
        (\<lambda>i. placement_new (Addr a) i (T_default env)) h4 = Some h'"
    by (auto simp: init_new_elements_for_each split: option.splits)
  from loop for_each_default [OF blk4, of "[?c..<unat new_size]" "T_default env"]
  have ok': "\<forall>i\<in>set [?c..<unat new_size]. i < length ?cells2"
    and h': "h' = h4\<lparr>blocks := (blocks h4)[a := Some ?cells'],
                  trace := trace h4 @ map (Construct a) [?c..<unat new_size]\<rparr>"
    by (auto split: if_splits)
  from h' blk4 have blk': "block_at h' (Addr a) = Some ?cells'"
    by (simp add: block_at_updated)
  have low: "i < length ?cells' \<and> ?cells' ! i = read (m_ptr this) i h \<and> read (m_ptr this) i h \<noteq> None"
    if "i < ?c" for i
    using that ok2 by (simp add: nth_overwrite rd)
  have high: "i < length ?cells' \<and> ?cells' ! i = Some (T_default env)"
    if "?c \<le> i \<and> i < unat new_size" for i
    using that ok' by (simp add: nth_overwrite)
  from blk' low high show ?thesis by blast
qed

subsection \<open>Allocated buffers\<close>

lemma allocated_Null: "m_ptr this = Null \<Longrightarrow> allocated (this, h) \<longleftrightarrow> m_count this = 0"
  by (simp add: allocated_def)

lemma allocated_Sentinel: "m_ptr this = Sentinel \<Longrightarrow> \<not> allocated (this, h)"
  by (simp add: allocated_def)

lemma allocated_Addr:
  "m_ptr this = Addr a \<Longrightarrow>
   allocated (this, h) \<longleftrightarrow>
     (\<exists>cells. block_at h (Addr a) = Some cells \<and> unat (m_count this) \<le> length cells \<and>
        (\<forall>i<unat (m_count this). cells ! i \<noteq> None))"
  by (auto simp: allocated_def list_all_length split: option.splits)

lemma allocated_old:
  assumes "allocated (this, h)"
  shows "m_ptr this \<noteq> Addr (length (blocks h))"
proof
  assume "m_ptr this = Addr (length (blocks h))"
  with assms show False
    by (simp add: allocated_def block_at_def)
qed

lemma allocated_elements:
  assumes "allocated (this, h)" and "i < unat (m_count this)"
  shows "subscript (this, h) i \<noteq> None"
proof (cases "m_ptr this")
  case Null
  with assms show ?thesis by (simp add: allocated_Null)
next
  case Sentinel
  with assms show ?thesis by (simp add: allocated_Sentinel)
next
  case (Addr a)
  with assms obtain cells where "block_at h (Addr a) = Some cells"
    "unat (m_count this) \<le> length cells" "\<forall>i<unat (m_count this). cells ! i \<noteq> None"
    by (auto simp: allocated_Addr)
  with assms(2) Addr show ?thesis
    by (simp add: subscript_def read_def)
qed

lemma moved_allocated:
  assumes m: "malloc env bytes h = (Addr a, h1)"
    and copy: "for_each [0..<unat (m_count this)] (copy_construct (m_ptr this) (Addr a)) h1 = Some h2"
    and dest: "for_each [0..<unat (m_count this)] (dtor (m_ptr this)) h2 = Some h3"
    and rel: "release (m_ptr this) h3 = Some h4"
    and init: "init_new_elements env new_size (this\<lparr>m_ptr := Addr a, m_cap := new_cap\<rparr>, h4) = Some (this', h')"
    and alloc: "allocated (this, h)"
  shows "allocated (this', h')"
    and "\<forall>i<unat (m_count this). subscript (this', h') i = subscript (this, h) i"
    and "\<forall>i. unat (m_count this) \<le> i \<and> i < unat (m_count this') \<longrightarrow>
            subscript (this', h') i = Some (T_default env)"
proof -
  note old = allocated_old [OF alloc]
  from moved_heap [OF m copy dest rel init old] obtain cells' where
    blk: "block_at h' (Addr a) = Some cells'"
    and low: "\<forall>i<unat (m_count this). i < length cells' \<and> cells' ! i = read (m_ptr this) i h \<and>
          read (m_ptr this) i h \<noteq> None"
    and high: "\<forall>i. unat (m_count this) \<le> i \<and> i < unat new_size \<longrightarrow>
          i < length cells' \<and> cells' ! i = Some (T_default env)"
    by blast
  from moved_control(1) [OF m copy dest rel init]
  have t: "this' = this\<lparr>m_ptr := Addr a, m_cap := new_cap,
            m_count := (if m_count this < new_size then new_size else m_count this)\<rparr>" .
  then have p: "m_ptr this' = Addr a" by simp
  have cnt: "m_count this' = (if m_count this < new_size then new_size else m_count this)"
    using t by simp
  have bound: "i < length cells' \<and> cells' ! i \<noteq> None" if "i < unat (m_count this')" for i
  proof (cases "i < unat (m_count this)")
    case True
    with low show ?thesis by auto
  next
    case False
    with that cnt have "m_count this < new_size" "i < unat new_size"
      by (auto split: if_splits)
    with False high show ?thesis by auto
  qed
  have len: "unat (m_count this') \<le> length cells'"
  proof (cases "unat (m_count this')")
    case 0
    then show ?thesis by simp
  next
    case (Suc j)
    with bound [of j] show ?thesis by simp
  qed
  from p blk len bound show "allocated (this', h')"
    by (auto simp: allocated_Addr)
  show "\<forall>i<unat (m_count this). subscript (this', h') i = subscript (this, h) i"
    using low p blk by (auto simp: subscript_def read_def)
  show "\<forall>i. unat (m_count this) \<le> i \<and> i < unat (m_count this') \<longrightarrow>
            subscript (this', h') i = Some (T_default env)"
  proof (intro allI impI)
    fix i assume i: "unat (m_count this) \<le> i \<and> i < unat (m_count this')"
    with cnt have "i < unat new_size" by (auto split: if_splits)
    with i high p blk show "subscript (this', h') i = Some (T_default env)"
      by (auto simp: subscript_def read_def)
  qed
qed

lemma reuse_allocated:
  assumes init: "init_new_elements env new_size (this, h) = Some (this', h')"
    and alloc: "allocated (this, h)"
  shows "allocated (this', h') \<and>
      (\<forall>i<unat (m_count this). subscript (this', h') i = subscript (this, h) i) \<and>
      (\<forall>i. unat (m_count this) \<le> i \<and> i < unat (m_count this') \<longrightarrow>
            subscript (this', h') i = Some (T_default env))"
proof -
  let ?c = "unat (m_count this)"
  from init have loop: "for_each [?c..<unat new_size]
        (\<lambda>i. placement_new (m_ptr this) i (T_default env)) h = Some h'"
    and t: "this' = this\<lparr>m_count := (if m_count this < new_size then new_size else m_count this)\<rparr>"
    by (auto simp: init_new_elements_for_each split: option.splits)
  show ?thesis
  proof (cases "m_count this < new_size")
    case False
    then have "unat new_size \<le> ?c" by (simp add: word_less_nat_alt)
    with loop have "h' = h" by simp
    with t False alloc show ?thesis
      by auto
  next
    case True
    then have lt: "?c < unat new_size" by (simp add: word_less_nat_alt)
    then have ne: "[?c..<unat new_size] \<noteq> []" by simp
    from for_each_first [OF loop ne]
    have "block_at h (m_ptr this) \<noteq> None"
      using placement_new_dead [of h "m_ptr this"] by fastforce
    then obtain a cells where p: "m_ptr this = Addr a" and blk: "block_at h (Addr a) = Some cells"
      by (cases "m_ptr this") (auto simp: block_at_def)
    from alloc p blk have len: "?c \<le> length cells" and live: "\<forall>i<?c. cells ! i \<noteq> None"
      by (auto simp: allocated_Addr)
    let ?cells' = "overwrite [?c..<unat new_size] (\<lambda>_. Some (T_default env)) cells"
    from loop p for_each_default [OF blk, of "[?c..<unat new_size]" "T_default env"]
    have ok: "\<forall>i\<in>set [?c..<unat new_size]. i < length cells"
      and h': "h' = h\<lparr>blocks := (blocks h)[a := Some ?cells'],
                  trace := trace h @ map (Construct a) [?c..<unat new_size]\<rparr>"
      by (auto split: if_splits)
    from h' blk have blk': "block_at h' (Addr a) = Some ?cells'"
      by (simp add: block_at_updated)
    from t True p have p': "m_ptr this' = Addr a" and cnt: "m_count this' = new_size"
      by simp_all
    from ok lt have fits: "unat new_size \<le> length cells"
      by (cases "unat new_size") auto
    have cell: "?cells' ! i = (if ?c \<le> i \<and> i < unat new_size then Some (T_default env) else cells ! i)"
      if "i < length cells" for i
      using that by (simp add: nth_overwrite)
    have "allocated (this', h')"
      using p' blk' cnt fits live cell by (auto simp: allocated_Addr)
    moreover have "\<forall>i<?c. subscript (this', h') i = subscript (this, h) i"
      using p p' blk blk' len cell by (auto simp: subscript_def read_def)
    moreover have "\<forall>i. ?c \<le> i \<and> i < unat (m_count this') \<longrightarrow>
            subscript (this', h') i = Some (T_default env)"
      using p' blk' cnt fits cell by (auto simp: subscript_def read_def)
    ultimately show ?thesis
      by blast
  qed
qed

lemma grow_allocated:
  assumes g: "grow cls env k (this, h) = Inr (this', h')"
    and alloc: "allocated (this, h)"
  shows "allocated (this', h') \<and>
    (\<forall>i<unat (m_count this). subscript (this', h') i = subscript (this, h) i) \<and>
    (\<forall>i. unat (m_count this) \<le> i \<and> i < unat (m_count this') \<longrightarrow>
            subscript (this', h') i = Some (T_default env)) \<and>
    m_count this' = (if m_count this < m_count this + k then m_count this + k else m_count this)"
proof (cases cls)
  case ExactFit
  with g have s: "Std_grow env k (this, h) = Inr (this', h')" by (simp add: grow_def)
  from s obtain h1 h2 h3 h4 where steps:
    "malloc env ((m_count this + k) * sizeof_T env) h = (Addr (length (blocks h)), h1)"
    "for_each [0..<unat (m_count this)]
       (copy_construct (m_ptr this) (Addr (length (blocks h)))) h1 = Some h2"
    "for_each [0..<unat (m_count this)] (dtor (m_ptr this)) h2 = Some h3"
    "release (m_ptr this) h3 = Some h4"
    "init_new_elements env (m_count this + k)
       (this\<lparr>m_ptr := Addr (length (blocks h)), m_cap := m_count this + k\<rparr>, h4) = Some (this', h')"
    by (rule Std_grow_InrE)
  from moved_allocated [OF steps alloc] moved_control(1) [OF steps]
  show ?thesis
    by simp
next
  case (Amortized multiplier)
  with g have f: "Future_grow env multiplier k (this, h) = Inr (this', h')" by (simp add: grow_def)
  show ?thesis
  proof (cases "m_cap this < m_count this + k")
    case True
    from f True obtain new_capacity h1 h2 h3 h4 where steps:
      "malloc env (new_capacity * sizeof_T env) h = (Addr (length (blocks h)), h1)"
      "for_each [0..<unat (m_count this)]
         (copy_construct (m_ptr this) (Addr (length (blocks h)))) h1 = Some h2"
      "for_each [0..<unat (m_count this)] (dtor (m_ptr this)) h2 = Some h3"
      "release (m_ptr this) h3 = Some h4"
      "init_new_elements env (m_count this + k)
         (this\<lparr>m_ptr := Addr (length (blocks h)), m_cap := new_capacity\<rparr>, h4) = Some (this', h')"
      by (rule Future_grow_moved)
    from moved_allocated [OF steps alloc] moved_control(1) [OF steps]
    show ?thesis by simp
  next
    case False
    with f have init: "init_new_elements env (m_count this + k) (this, h) = Some (this', h')"
      by (auto simp: Future_grow_def Let_def split: option.splits)
    from reuse_allocated [OF init alloc] init_new_elements_Some(1) [OF init]
    show ?thesis by simp
  qed
qed

lemma shrink_allocated:
  fixes this :: allocator and k :: Size
  assumes alloc: "allocated (this, h)"
  defines "c' \<equiv> (if m_count this - k < m_count this then m_count this - k else m_count this)"
  shows "\<exists>h'. shrink cls k (this, h) = Inr (this\<lparr>m_count := c'\<rparr>, h') \<and>
      allocated (this\<lparr>m_count := c'\<rparr>, h') \<and>
      (\<forall>i<unat c'. subscript (this\<lparr>m_count := c'\<rparr>, h') i = subscript (this, h) i)"
proof (cases "m_count this - k < m_count this")
  case False
  then have "unat (m_count this) \<le> unat (m_count this - k)" by (simp add: word_less_nat_alt)
  then have "destruct_removed (m_count this - k) (this, h) = Some (this, h)"
    using False by (simp add: destruct_removed_for_each)
  with False alloc show ?thesis
    by (auto simp: shrink_def Std_shrink_def Let_def c'_def)
next
  case True
  let ?is = "rev [unat (m_count this - k)..<unat (m_count this)]"
  from True have lt: "unat (m_count this - k) < unat (m_count this)"
    by (simp add: word_less_nat_alt)
  then have pos: "m_count this \<noteq> 0" by auto
  with alloc obtain a where p: "m_ptr this = Addr a"
    by (cases "m_ptr this") (auto simp: allocated_def)
  with alloc obtain cells where blk: "block_at h (Addr a) = Some cells"
    and len: "unat (m_count this) \<le> length cells"
    and live: "\<forall>i<unat (m_count this). cells ! i \<noteq> None"
    by (auto simp: allocated_Addr)
  let ?cells' = "overwrite ?is (\<lambda>_. None) cells"
  let ?h' = "h\<lparr>blocks := (blocks h)[a := Some ?cells'], trace := trace h @ map (Destruct a) ?is\<rparr>"
  have "\<forall>i\<in>set ?is. i < length cells \<and> cells ! i \<noteq> None"
    using len live by auto
  with for_each_dtor [OF blk, of ?is] have loop: "for_each ?is (dtor (Addr a)) h = Some ?h'"
    by simp
  with True p have s: "shrink cls k (this, h) = Inr (this\<lparr>m_count := m_count this - k\<rparr>, ?h')"
    by (simp add: shrink_def Std_shrink_def Let_def destruct_removed_for_each)
  from blk have blk': "block_at ?h' (Addr a) = Some ?cells'"
    by (simp add: block_at_updated)
  have cell: "?cells' ! i = cells ! i" if "i < unat (m_count this - k)" for i
    using that lt len by (simp add: nth_overwrite)
  have "allocated (this\<lparr>m_count := m_count this - k\<rparr>, ?h')"
    using p blk' lt len live cell by (auto simp: allocated_Addr)
  moreover have "\<forall>i<unat (m_count this - k).
      subscript (this\<lparr>m_count := m_count this - k\<rparr>, ?h') i = subscript (this, h) i"
    using p blk blk' lt len cell by (auto simp: subscript_def read_def)
  ultimately show ?thesis using s True by (auto simp: c'_def)
qed

lemma free_allocated:
  assumes alloc: "allocated (this, h)"
  shows "\<exists>h'. free env (this, h) = Inr (if NDEBUG env then this else this\<lparr>m_ptr := Sentinel\<rparr>, h')"
proof (cases "m_ptr this")
  case Null
  with alloc have "m_count this = 0" by (simp add: allocated_Null)
  with Null show ?thesis
    by (simp add: free_def CHI_ASSERT_def destruct_def release_def)
next
  case Sentinel
  with alloc show ?thesis by (simp add: allocated_Sentinel)
next
  case (Addr a)
  with alloc obtain cells where blk: "block_at h (Addr a) = Some cells"
    and len: "unat (m_count this) \<le> length cells"
    and live: "\<forall>i<unat (m_count this). cells ! i \<noteq> None"
    by (auto simp: allocated_Addr)
  let ?is = "[0..<unat (m_count this)]"
  let ?h1 = "h\<lparr>blocks := (blocks h)[a := Some (overwrite ?is (\<lambda>_. None) cells)],
               trace := trace h @ map (Destruct a) ?is\<rparr>"
  have "\<forall>i\<in>set ?is. i < length cells \<and> cells ! i \<noteq> None"
    using len live by auto
  with for_each_dtor [OF blk, of ?is] have loop: "for_each ?is (dtor (Addr a)) h = Some ?h1"
    by simp
  from blk have "block_at ?h1 (Addr a) = Some (overwrite ?is (\<lambda>_. None) cells)"
    by (simp add: block_at_updated)
  then have "release (Addr a) ?h1 \<noteq> None"
    by (simp add: release_def)
  with loop Addr show ?thesis
    by (auto simp: free_def CHI_ASSERT_def destruct_def)
qed

lemma allocate_InrE:
  assumes "allocate cls env n ini (this, h) = Inr (this', h')"
  obtains "n = 0" "m_ptr this' = Null" "m_count this' = 0"
  | bytes h1 where "n \<noteq> 0" "m_ptr this' = Addr (length (blocks h))" "m_count this' = n"
      "malloc env bytes h = (Addr (length (blocks h)), h1)"
      "for_each [0..<unat n] (construct_init env (Addr (length (blocks h))) ini) h1 = Some h'"
proof (cases "n = 0")
  case True
  with assms have "m_ptr this' = Null" "m_count this' = 0"
    by (cases cls; auto simp: allocate_def Std_allocate_def Future_allocate_def CHI_ASSERT_def
        Let_def split: if_splits option.splits)+
  with True that(1) show thesis by blast
next
  case False
  show thesis
  proof (cases cls)
    case ExactFit
    obtain p h1 where m: "malloc env (n * sizeof_T env) h = (p, h1)"
      by (cases "malloc env (n * sizeof_T env) h")
    with assms False ExactFit have "p \<noteq> Null"
      by (auto simp: allocate_def Std_allocate_def CHI_ASSERT_def split: if_splits)
    with malloc_cases [OF m] have p: "p = Addr (length (blocks h))" by auto
    from assms False ExactFit m p
    have "for_each [0..<unat n] (construct_init env (Addr (length (blocks h))) ini) h1 = Some h'"
      "m_ptr this' = Addr (length (blocks h))" "m_count this' = n"
      by (auto simp: allocate_def Std_allocate_def CHI_ASSERT_def split: if_splits option.splits)
    with False m p that(2) show thesis by blast
  next
    case (Amortized multiplier)
    from assms Amortized obtain c where c: "float_to_Size (float_times multiplier (Size_to_float n)) = Some c"
      by (auto simp: allocate_def Future_allocate_def split: option.splits)
    obtain p h1 where m: "malloc env (c * sizeof_T env) h = (p, h1)"
      by (cases "malloc env (c * sizeof_T env) h")
    with assms False Amortized c have "p \<noteq> Null"
      by (auto simp: allocate_def Future_allocate_def Let_def)
    with malloc_cases [OF m] have p: "p = Addr (length (blocks h))" by auto
    from assms False Amortized c m p
    have "for_each [0..<unat n] (construct_init env (Addr (length (blocks h))) ini) h1 = Some h'"
      "m_ptr this' = Addr (length (blocks h))" "m_count this' = n"
      by (auto simp: allocate_def Future_allocate_def Let_def split: option.splits)
    with False m p that(2) show thesis by blast
  qed
qed

lemma allocate_allocated:
  assumes a: "allocate cls env n ini (this, h) = Inr (this', h')"
  shows "allocated (this', h') \<and> m_count this' = n \<and>
     (\<forall>i<unat n. subscript (this', h') i = init_value env ini i)"
  using a
proof (cases rule: allocate_InrE)
  case 1
  then show ?thesis by (simp add: allocated_Null)
next
  case (2 bytes h1)
  let ?a = "length (blocks h)"
  let ?N = "unat bytes div unat (sizeof_T env)"
  from malloc_cases [OF 2(4)]
  have b1: "blocks h1 = blocks h @ [Some (replicate ?N None)]" by auto
  then have new: "block_at h1 (Addr ?a) = Some (replicate ?N None)"
    by (simp add: block_at_def)
  let ?cells' = "overwrite [0..<unat n] (init_value env ini) (replicate ?N None)"
  from 2(5) for_each_construct_init [OF new, of "[0..<unat n]" env ini]
  have ok: "\<forall>i\<in>set [0..<unat n]. i < ?N \<and> init_value env ini i \<noteq> None"
    and h': "h' = h1\<lparr>blocks := (blocks h1)[?a := Some ?cells'],
                  trace := trace h1 @ map (Construct ?a) [0..<unat n]\<rparr>"
    by (auto split: if_splits)
  from h' new have blk': "block_at h' (Addr ?a) = Some ?cells'"
    by (simp add: block_at_updated)
  have cell: "i < ?N \<and> ?cells' ! i = init_value env ini i \<and> init_value env ini i \<noteq> None"
    if "i < unat n" for i
    using that ok by (simp add: nth_overwrite)
  have len: "unat n \<le> ?N"
  proof (cases "unat n")
    case 0
    then show ?thesis by simp
  next
    case (Suc j)
    with cell [of j] show ?thesis by simp
  qed
  have "allocated (this', h')"
    using 2(2,3) blk' len cell by (auto simp: allocated_Addr)
  moreover have "\<forall>i<unat n. subscript (this', h') i = init_value env ini i"
    using 2(2) blk' cell by (auto simp: subscript_def read_def)
  ultimately show ?thesis using 2(3) by simp
qed

subsection \<open>Sizes that wrap\<close>

lemma grown_count:
  fixes n k :: Size
  assumes "unat n + unat k < 2 ^ 64"
  shows "(if n < n + k then n + k else n) = n + k"
proof -
  from assms have "unat (n + k) = unat n + unat k"
    by (simp add: unat_add_lem [THEN iffD1])
  then have "n \<le> n + k" by (simp add: word_le_nat_alt)
  then show ?thesis
    by (cases "n < n + k") (simp_all add: order.strict_iff_order)
qed

lemma no_wrap_less:
  fixes c k :: Size
  assumes "unat c + unat k < 2 ^ 64" and "k \<noteq> 0"
  shows "c < c + k"
proof -
  from assms(1) have "unat (c + k) = unat c + unat k"
    by (simp add: unat_add_lem [THEN iffD1])
  moreover from assms(2) have "0 < unat k" by (simp add: unat_gt_0)
  ultimately show ?thesis by (simp add: word_less_nat_alt)
qed

lemma wrap_not_less:
  fixes c k :: Size
  assumes "unat c < 2 ^ 63" and "\<not> unat c + unat k < 2 ^ 64"
  shows "\<not> c - k < c"
proof -
  have k: "unat k < 2 ^ 64" using unsigned_less [of k, where 'a = nat] by simp
  from assms have gt: "unat c < unat k" by simp
  then have "unat (c - k) = unat c + 2 ^ 64 - unat k"
    by (simp add: unat_sub_if_size word_size)
  with k have "unat c < unat (c - k)" by simp
  then show ?thesis by (simp add: word_less_nat_alt)
qed

lemma shrink_undoes_grow:
  fixes c k :: Size
  assumes "unat c < 2 ^ 63 \<or> unat c + unat k < 2 ^ 64"
  shows "(if (if c < c + k then c + k else c) - k < (if c < c + k then c + k else c)
          then (if c < c + k then c + k else c) - k
          else (if c < c + k then c + k else c)) = c"
proof (cases "c < c + k")
  case True
  then show ?thesis by simp
next
  case False
  have "\<not> c - k < c"
  proof (cases "k = 0")
    case True
    then show ?thesis by simp
  next
    case k: False
    with False no_wrap_less [of c k] have over: "\<not> unat c + unat k < 2 ^ 64" by blast
    with assms have "unat c < 2 ^ 63" by blast
    from this over show ?thesis by (rule wrap_not_less)
  qed
  with False show ?thesis by simp
qed

section \<open>Counting acquisitions along a run\<close>

lemma run_step:
  assumes "run cls env (r # rs) (this, h) = Inr s"
  shows "\<exists>this1 h1. call cls env r (this, h) = Inr (this1, h1) \<and> run cls env rs (this1, h1) = Inr s"
  using assms by (auto split: sum.splits)

lemma exact_fit_grow_acquires:
  assumes "grow ExactFit env k (this, h) = Inr (this', h')"
    and "trace h = t0 @ evs"
  shows "\<exists>evs'. trace h' = t0 @ evs' \<and> acquisitions evs' = Suc (acquisitions evs)"
proof -
  from assms(1) have g: "Std_grow env k (this, h) = Inr (this', h')" by (simp add: grow_def)
  from Std_grow_control(2) [OF g] assms(2) show ?thesis by simp
qed

lemma allocate_nothing:
  assumes "allocate cls env 0 ini (this, h) = Inr (this', h')"
  shows "h' = h" and "m_count this' = 0" and "cls = Amortized multiplier \<Longrightarrow> m_cap this' = 0"
proof -
  from assms show "h' = h" and "m_count this' = 0"
    by (cases cls; auto simp: allocate_def Std_allocate_def Future_allocate_def CHI_ASSERT_def
        Let_def split: if_splits option.splits)+
  assume "cls = Amortized multiplier"
  with assms show "m_cap this' = 0"
    by (auto simp: allocate_def Future_allocate_def Let_def float_to_Size_def
        Size_to_float_def float_times_def float_round_def split: if_splits option.splits)
qed

lemma amortized_grow_realloc_step:
  assumes g: "grow (Amortized multiplier) env k (this, h) = Inr (this', h')"
    and c: "m_count this = c" and q: "m_cap this = q"
    and more: "q < c + k" and up: "c < c + k"
    and nc: "float_to_Size (float_times multiplier (Size_to_float (c + k))) = Some nc"
    and tr: "trace h = t0 @ evs"
  shows "m_count this' = c + k \<and> m_cap this' = nc \<and>
    (\<exists>evs'. trace h' = t0 @ evs' \<and> acquisitions evs' = Suc (acquisitions evs))"
proof -
  from g have f: "Future_grow env multiplier k (this, h) = Inr (this', h')" by (simp add: grow_def)
  from more c q have True: "m_cap this < m_count this + k" by simp
  from Future_grow_realloc [OF f True] nc c up tr show ?thesis by auto
qed

lemma amortized_grow_reuse_step:
  assumes g: "grow (Amortized multiplier) env k (this, h) = Inr (this', h')"
    and c: "m_count this = c" and q: "m_cap this = q"
    and room: "\<not> q < c + k" and up: "c < c + k"
    and tr: "trace h = t0 @ evs"
  shows "m_count this' = c + k \<and> m_cap this' = q \<and>
    (\<exists>evs'. trace h' = t0 @ evs' \<and> acquisitions evs' = acquisitions evs)"
proof -
  from g have f: "Future_grow env multiplier k (this, h) = Inr (this', h')" by (simp add: grow_def)
  from room c q have False: "\<not> m_cap this < m_count this + k" by simp
  from Future_grow_reuse(1,2) [OF f False] c q up tr show ?thesis by auto
qed

lemma capacities:
  "float_to_Size (float_times (3 / 2) (Size_to_float ((0 :: Size) + 1))) = Some 1"
  "float_to_Size (float_times (3 / 2) (Size_to_float ((1 :: Size) + 1))) = Some 3"
  "float_to_Size (float_times (3 / 2) (Size_to_float ((3 :: Size) + 1))) = Some 6"
  "float_to_Size (float_times (3 / 2) (Size_to_float ((6 :: Size) + 1))) = Some 10"
  by code_simp+

section \<open>The claims\<close>

subsection \<open>C1: capacity and count\<close>

text \<open>
  C1, as it holds. The claim is that the exact-fit strategy keeps \<open>capacity() = count()\<close> at
  all times and the amortized strategy keeps \<open>capacity() \<ge> count()\<close>. What holds:
  \<^item> in the exact-fit strategy, \<open>capacity() = count()\<close> right after every \<open>grow\<close> that
    returns, both being the old count plus the increment;
  \<^item> \<open>shrink\<close>, in either strategy, leaves \<open>capacity()\<close> as it is and does not raise
    \<open>count()\<close>, so that afterwards the capacity may exceed the count;
  \<^item> in the amortized strategy with a multiplier that is a \<open>float\<close> greater than 1,
    \<open>capacity() \<ge> count()\<close> after every sequence of calls that returns, started from any
    object for which it holds (the object the constructor makes is one: both are 0).
  Nothing is said here of \<open>capacity()\<close> after the exact-fit \<open>allocate\<close>, which does not
  assign the field, nor of the multiplier 1.0, which the constructor accepts: the count
  16777217 is not a \<open>float\<close> and its product with 1.0 is 16777216
  (\<open>float_products\<close>).
\<close>

theorem capacity_and_count:
  "(grow ExactFit env k (this, h) = Inr (this', h') \<longrightarrow>
      capacity this' = count this' \<and> count this' = count this + k) \<and>
   (shrink cls k (this, h) = Inr (this', h') \<longrightarrow>
      capacity this' = capacity this \<and> count this' \<le> count this) \<and>
   (binary32 multiplier \<and> 1 < multiplier \<and> count this \<le> capacity this \<and>
    run (Amortized multiplier) env reqs (this, h) = Inr (this', h') \<longrightarrow>
      count this' \<le> capacity this')"
proof (intro conjI impI)
  assume "grow ExactFit env k (this, h) = Inr (this', h')"
  then have g: "Std_grow env k (this, h) = Inr (this', h')"
    by (simp add: grow_def)
  from Std_grow_control(1) [OF g]
  show "capacity this' = count this'" and "count this' = count this + k"
    by (simp_all add: capacity_def count_def)
next
  assume "shrink cls k (this, h) = Inr (this', h')"
  then have s: "Std_shrink k (this, h) = Inr (this', h')"
    by (simp add: shrink_def)
  from Std_shrink_control(1) [OF s]
  show "capacity this' = capacity this" and "count this' \<le> count this"
    by (auto simp: capacity_def count_def)
next
  assume "binary32 multiplier \<and> 1 < multiplier \<and> count this \<le> capacity this \<and>
    run (Amortized multiplier) env reqs (this, h) = Inr (this', h')"
  then show "count this' \<le> capacity this'"
    using amortized_run_keeps_room [of multiplier this env reqs h this' h']
    by (simp add: capacity_def count_def)
qed

text \<open>The three parts at work: an exact-fit \<open>grow(1)\<close> and \<open>shrink(1)\<close> of a buffer of two
  elements, and a run of the amortized strategy.\<close>

theorem capacity_and_count_witness:
  "grow ExactFit debug_env 1 (two_elements, two_elements_heap) =
     Inr (\<lparr>m_ptr = Addr 1, m_count = 3, m_cap = 3\<rparr>,
          \<lparr>blocks = [None, Some [Some 0, Some 0, Some 0]], outcomes = replicate 10 True,
            trace = [Acquire 0 8, Construct 0 0, Construct 0 1, Acquire 1 12, Construct 1 0,
                    Construct 1 1, Destruct 0 0, Destruct 0 1, Release 0, Construct 1 2]\<rparr>) \<and>
   capacity \<lparr>m_ptr = Addr 1, m_count = 3, m_cap = 3\<rparr> =
     count \<lparr>m_ptr = Addr 1, m_count = 3, m_cap = 3\<rparr> \<and>
   shrink ExactFit 1 (two_elements, two_elements_heap) =
     Inr (\<lparr>m_ptr = Addr 0, m_count = 1, m_cap = 0\<rparr>,
          \<lparr>blocks = [Some [Some 0, None]], outcomes = replicate 11 True,
            trace = [Acquire 0 8, Construct 0 0, Construct 0 1, Destruct 0 1]\<rparr>) \<and>
   capacity \<lparr>m_ptr = Addr 0, m_count = 1, m_cap = 0\<rparr> = capacity two_elements \<and>
   count \<lparr>m_ptr = Addr 0, m_count = 1, m_cap = 0\<rparr> \<le> count two_elements \<and>
   binary32 (3 / 2) \<and>
   run (Amortized (3 / 2)) debug_env [Allocate 2 (Fill 7), Grow 1, Grow 2, Shrink 1, Free]
       (StdAllocator, fresh_heap) =
     Inr (\<lparr>m_ptr = Sentinel, m_count = 4, m_cap = 7\<rparr>,
          \<lparr>blocks = [None, None], outcomes = replicate 10 True,
            trace = [Acquire 0 12, Construct 0 0, Construct 0 1, Construct 0 2,
                    Acquire 1 28, Construct 1 0, Construct 1 1, Construct 1 2,
                    Destruct 0 0, Destruct 0 1, Destruct 0 2, Release 0, Construct 1 3,
                    Construct 1 4, Destruct 1 4, Destruct 1 0, Destruct 1 1, Destruct 1 2,
                    Destruct 1 3, Release 1]\<rparr>) \<and>
   count \<lparr>m_ptr = Sentinel, m_count = 4, m_cap = 7\<rparr> \<le>
     capacity \<lparr>m_ptr = Sentinel, m_count = 4, m_cap = 7\<rparr>"
proof -
  have g: "grow ExactFit debug_env 1 (two_elements, two_elements_heap) =
     Inr (\<lparr>m_ptr = Addr 1, m_count = 3, m_cap = 3\<rparr>,
          \<lparr>blocks = [None, Some [Some 0, Some 0, Some 0]], outcomes = replicate 10 True,
            trace = [Acquire 0 8, Construct 0 0, Construct 0 1, Acquire 1 12, Construct 1 0,
                    Construct 1 1, Destruct 0 0, Destruct 0 1, Release 0, Construct 1 2]\<rparr>)"
    by code_simp
  have s: "shrink ExactFit 1 (two_elements, two_elements_heap) =
     Inr (\<lparr>m_ptr = Addr 0, m_count = 1, m_cap = 0\<rparr>,
          \<lparr>blocks = [Some [Some 0, None]], outcomes = replicate 11 True,
            trace = [Acquire 0 8, Construct 0 0, Construct 0 1, Destruct 0 1]\<rparr>)"
    by code_simp
  have r: "run (Amortized (3 / 2)) debug_env [Allocate 2 (Fill 7), Grow 1, Grow 2, Shrink 1, Free]
       (StdAllocator, fresh_heap) =
     Inr (\<lparr>m_ptr = Sentinel, m_count = 4, m_cap = 7\<rparr>,
          \<lparr>blocks = [None, None], outcomes = replicate 10 True,
            trace = [Acquire 0 12, Construct 0 0, Construct 0 1, Construct 0 2,
                    Acquire 1 28, Construct 1 0, Construct 1 1, Construct 1 2,
                    Destruct 0 0, Destruct 0 1, Destruct 0 2, Release 0, Construct 1 3,
                    Construct 1 4, Destruct 1 4, Destruct 1 0, Destruct 1 1, Destruct 1 2,
                    Destruct 1 3, Release 1]\<rparr>)"
    by code_simp
  have b: "binary32 (3 / 2)" by code_simp
  have m: "(1 :: rat) < 3 / 2" by simp
  have i: "count StdAllocator \<le> capacity StdAllocator" by code_simp
  from g capacity_and_count [where env = debug_env and k = 1 and this = two_elements
      and h = two_elements_heap]
  have 1: "capacity \<lparr>m_ptr = Addr 1, m_count = 3, m_cap = 3\<rparr> =
     count \<lparr>m_ptr = Addr 1, m_count = 3, m_cap = 3\<rparr>"
    by blast
  from s capacity_and_count [where cls = ExactFit and k = 1 and this = two_elements
      and h = two_elements_heap]
  have 2: "capacity \<lparr>m_ptr = Addr 0, m_count = 1, m_cap = 0\<rparr> = capacity two_elements"
    "count \<lparr>m_ptr = Addr 0, m_count = 1, m_cap = 0\<rparr> \<le> count two_elements"
    by blast+
  from b m i r capacity_and_count [where multiplier = "3 / 2" and env = debug_env
      and this = StdAllocator and h = fresh_heap]
  have 3: "count \<lparr>m_ptr = Sentinel, m_count = 4, m_cap = 7\<rparr> \<le>
     capacity \<lparr>m_ptr = Sentinel, m_count = 4, m_cap = 7\<rparr>"
    by blast
  from g 1 s 2 b r 3 show ?thesis by (intro conjI)
qed

text \<open>
  C1 as stated fails in the exact-fit strategy. After \<open>allocate(2)\<close> on a new object the
  count is 2 and the capacity is still 0; after \<open>allocate(0)\<close>, \<open>grow(3)\<close>, \<open>shrink(1)\<close>
  the count is 2 and the capacity is 3.
\<close>

theorem exact_fit_capacity_differs_from_count:
  "allocate ExactFit debug_env 2 Default (StdAllocator, fresh_heap) =
     Inr (two_elements, two_elements_heap) \<and>
   capacity two_elements = 0 \<and> count two_elements = 2 \<and>
   run ExactFit debug_env [Allocate 0 Default, Grow 3, Shrink 1] (StdAllocator, fresh_heap) =
     Inr (\<lparr>m_ptr = Addr 0, m_count = 2, m_cap = 3\<rparr>,
          \<lparr>blocks = [Some [Some 0, Some 0, None]], outcomes = replicate 11 True,
            trace = [Acquire 0 12, Construct 0 0, Construct 0 1, Construct 0 2, Destruct 0 2]\<rparr>) \<and>
   capacity \<lparr>m_ptr = Addr 0, m_count = 2, m_cap = 3\<rparr> = 3 \<and>
   count \<lparr>m_ptr = Addr 0, m_count = 2, m_cap = 3\<rparr> = 2"
  by code_simp

subsection \<open>C2: the capacity the amortized strategy reserves\<close>

text \<open>
  C2, as it holds, for a multiplier \<open>m > 1\<close>. The claim has the capacity \<open>m * n\<close> rounded
  up. The capacity is the product as the code computes it: \<open>n\<close> converted to \<open>float\<close>,
  the product rounded to \<open>float\<close>, the fraction discarded by the conversion to \<open>Size\<close>.
  What holds:
  \<^item> an \<open>allocate(n, \<dots>)\<close> that returns sets the capacity to that product and the count
    to \<open>n\<close>, runs the constructor at the indices \<open>0, \<dots>, n - 1\<close> and at no other, and
    for \<open>n \<noteq> 0\<close> has asked the heap for one block of \<open>capacity * sizeof(T)\<close> bytes;
  \<^item> a \<open>grow(k)\<close> that returns has acquired a block exactly if \<open>count + k\<close>, computed in
    \<open>Size\<close>, exceeds the capacity; the new capacity is then that product for
    \<open>count + k\<close> and the pointer is the new block; otherwise no block is acquired and
    pointer and capacity are unchanged;
  \<^item> the capacity so computed from a size \<open>s\<close> is more than
    \<open>m * s * (1 - 2^(- 24))^2 - 1\<close> and at most \<open>m * s * (1 + 2^(- 24))^2\<close>, and it
    is \<open>m * s\<close> rounded down whenever \<open>s\<close> and \<open>m * s\<close> are values of \<open>float\<close>.
\<close>

theorem amortized_capacity_is_truncated:
  assumes "1 < multiplier"
  shows
    "(allocate (Amortized multiplier) env n ini (this, h) = Inr (this', h') \<longrightarrow>
        float_to_Size (float_times multiplier (Size_to_float n)) = Some (capacity this') \<and>
        count this' = n \<and>
        constructions (events h h') = [0..<unat n] \<and>
        (n \<noteq> 0 \<longrightarrow> events h h' =
           Acquire (length (blocks h)) (capacity this' * sizeof_T env) #
           map (Construct (length (blocks h))) [0..<unat n])) \<and>
     (grow (Amortized multiplier) env k (this, h) = Inr (this', h') \<longrightarrow>
        (if capacity this < count this + k
         then acquisitions (events h h') = 1 \<and> m_ptr this' = Addr (length (blocks h)) \<and>
           float_to_Size (float_times multiplier (Size_to_float (count this + k))) =
             Some (capacity this')
         else acquisitions (events h h') = 0 \<and> m_ptr this' = m_ptr this \<and>
           capacity this' = capacity this)) \<and>
     (float_to_Size (float_times multiplier (Size_to_float s)) = Some c \<longrightarrow>
        multiplier * of_int (uint s) * (1 - 1 / 2 ^ 24)\<^sup>2 - 1 < of_int (uint c) \<and>
        of_int (uint c) \<le> multiplier * of_int (uint s) * (1 + 1 / 2 ^ 24)\<^sup>2 \<and>
        (binary32 (of_int (uint s)) \<and> binary32 (multiplier * of_int (uint s)) \<longrightarrow>
           uint c = \<lfloor>multiplier * of_int (uint s)\<rfloor>))"
proof (intro conjI impI)
  assume "allocate (Amortized multiplier) env n ini (this, h) = Inr (this', h')"
  then have a: "Future_allocate env multiplier n ini (this, h) = Inr (this', h')"
    by (simp add: allocate_def)
  from Future_allocate_control [OF a] obtain c where
    c: "float_to_Size (float_times multiplier (Size_to_float n)) = Some c"
    and r: "if n = 0 then this' = this\<lparr>m_ptr := Null, m_count := 0, m_cap := c\<rparr> \<and> h' = h
       else this' = this\<lparr>m_ptr := Addr (length (blocks h)), m_count := n, m_cap := c\<rparr> \<and>
         trace h' = trace h @ Acquire (length (blocks h)) (c * sizeof_T env) #
           map (Construct (length (blocks h))) [0..<unat n] \<and>
         outcomes h = True # outcomes h'"
    by blast
  from c r
  show "float_to_Size (float_times multiplier (Size_to_float n)) = Some (capacity this')"
    by (auto simp: capacity_def split: if_splits)
  from r show "count this' = n"
    by (auto simp: count_def split: if_splits)
  from r show "constructions (events h h') = [0..<unat n]"
    by (auto simp: events_def split: if_splits)
  from r show "events h h' =
           Acquire (length (blocks h)) (capacity this' * sizeof_T env) #
           map (Construct (length (blocks h))) [0..<unat n]" if "n \<noteq> 0"
    using that by (simp add: events_def capacity_def)
next
  assume "grow (Amortized multiplier) env k (this, h) = Inr (this', h')"
  then have g: "Future_grow env multiplier k (this, h) = Inr (this', h')"
    by (simp add: grow_def)
  show "if capacity this < count this + k
         then acquisitions (events h h') = 1 \<and> m_ptr this' = Addr (length (blocks h)) \<and>
           float_to_Size (float_times multiplier (Size_to_float (count this + k))) =
             Some (capacity this')
         else acquisitions (events h h') = 0 \<and> m_ptr this' = m_ptr this \<and>
           capacity this' = capacity this"
  proof (cases "m_cap this < m_count this + k")
    case True
    from Future_grow_realloc [OF g True] obtain nc where
      nc: "float_to_Size (float_times multiplier (Size_to_float (m_count this + k))) = Some nc"
      and t: "this' = this\<lparr>m_ptr := Addr (length (blocks h)), m_cap := nc,
        m_count := (if m_count this < m_count this + k then m_count this + k else m_count this)\<rparr>"
      and tr: "trace h' = trace h @ [Acquire (length (blocks h)) (nc * sizeof_T env)] @
        map (Construct (length (blocks h))) [0..<unat (m_count this)] @
        map (Destruct (the_addr (m_ptr this))) [0..<unat (m_count this)] @
        release_events (m_ptr this) @
        map (Construct (length (blocks h))) [unat (m_count this)..<unat (m_count this + k)]"
      by blast
    from nc t events_append [OF tr] True show ?thesis
      by (simp add: capacity_def count_def)
  next
    case False
    note c = Future_grow_reuse [OF g False]
    from c(1) events_append [OF c(2)] False show ?thesis
      by (simp add: capacity_def count_def)
  qed
next
  assume c: "float_to_Size (float_times multiplier (Size_to_float s)) = Some c"
  from assms have m: "1 \<le> multiplier" by simp
  from float_product_bounds [OF m c]
  show "multiplier * of_int (uint s) * (1 - 1 / 2 ^ 24)\<^sup>2 - 1 < of_int (uint c)"
    and "of_int (uint c) \<le> multiplier * of_int (uint s) * (1 + 1 / 2 ^ 24)\<^sup>2" .
  assume "binary32 (of_int (uint s)) \<and> binary32 (multiplier * of_int (uint s))"
  then have b: "binary32 (of_int (uint s))" "binary32 (multiplier * of_int (uint s))"
    by (rule conjunct1, rule conjunct2)
  from assms have "0 \<le> multiplier" by simp
  then show "uint c = \<lfloor>multiplier * of_int (uint s)\<rfloor>"
    using b c by (rule float_product_exact)
qed

text \<open>With \<open>m = 1.5\<close>: \<open>allocate(3)\<close> reserves 4, which is 4.5 rounded down; a \<open>grow(2)\<close>
  of that buffer moves it to a block of 7, and a \<open>grow(1)\<close> stays in the block. With
  \<open>m = 1.4f\<close>, \<open>allocate(5)\<close> reserves 7: the product of the \<open>float\<close> nearest to 1.4
  with 5 lies below 7 and is rounded to it.\<close>

theorem amortized_capacity_is_truncated_witness:
  "allocate (Amortized (3 / 2)) debug_env 3 Default (StdAllocator, fresh_heap) =
     Inr (three_of_four, three_of_four_heap) \<and>
   float_to_Size (float_times (3 / 2) (Size_to_float 3)) = Some (capacity three_of_four) \<and>
   count three_of_four = 3 \<and>
   constructions (events fresh_heap three_of_four_heap) = [0..<unat (3 :: Size)] \<and>
   events fresh_heap three_of_four_heap =
     Acquire (length (blocks fresh_heap)) (capacity three_of_four * sizeof_T debug_env) #
     map (Construct (length (blocks fresh_heap))) [0..<unat (3 :: Size)] \<and>
   (3 / 2 :: rat) * of_int (uint (3 :: Size)) * (1 - 1 / 2 ^ 24)\<^sup>2 - 1 <
     of_int (uint (capacity three_of_four)) \<and>
   (of_int (uint (capacity three_of_four)) :: rat) \<le>
     3 / 2 * of_int (uint (3 :: Size)) * (1 + 1 / 2 ^ 24)\<^sup>2 \<and>
   binary32 (of_int (uint (3 :: Size))) \<and>
   binary32 (3 / 2 * of_int (uint (3 :: Size))) \<and>
   uint (capacity three_of_four) = \<lfloor>(3 / 2 :: rat) * of_int (uint (3 :: Size))\<rfloor> \<and>
   grow (Amortized (3 / 2)) debug_env 2 (three_of_four, three_of_four_heap) =
     Inr (\<lparr>m_ptr = Addr 1, m_count = 5, m_cap = 7\<rparr>,
          \<lparr>blocks = [None, Some [Some 0, Some 0, Some 0, Some 0, Some 0, None, None]], outcomes = replicate 10 True,
       trace = [Acquire 0 16, Construct 0 0, Construct 0 1, Construct 0 2, Acquire 1 28,
               Construct 1 0, Construct 1 1, Construct 1 2, Destruct 0 0, Destruct 0 1,
               Destruct 0 2, Release 0, Construct 1 3, Construct 1 4]\<rparr>) \<and>
   acquisitions (events three_of_four_heap
     \<lparr>blocks = [None, Some [Some 0, Some 0, Some 0, Some 0, Some 0, None, None]], outcomes = replicate 10 True,
       trace = [Acquire 0 16, Construct 0 0, Construct 0 1, Construct 0 2, Acquire 1 28,
               Construct 1 0, Construct 1 1, Construct 1 2, Destruct 0 0, Destruct 0 1,
               Destruct 0 2, Release 0, Construct 1 3, Construct 1 4]\<rparr>) = 1 \<and>
   float_to_Size (float_times (3 / 2) (Size_to_float (count three_of_four + 2))) =
     Some (capacity \<lparr>m_ptr = Addr 1, m_count = 5, m_cap = 7\<rparr>) \<and>
   grow (Amortized (3 / 2)) debug_env 1 (three_of_four, three_of_four_heap) =
     Inr (\<lparr>m_ptr = Addr 0, m_count = 4, m_cap = 4\<rparr>,
          \<lparr>blocks = [Some [Some 0, Some 0, Some 0, Some 0]], outcomes = replicate 11 True,
       trace = [Acquire 0 16, Construct 0 0, Construct 0 1, Construct 0 2, Construct 0 3]\<rparr>) \<and>
   acquisitions (events three_of_four_heap
     \<lparr>blocks = [Some [Some 0, Some 0, Some 0, Some 0]], outcomes = replicate 11 True,
       trace = [Acquire 0 16, Construct 0 0, Construct 0 1, Construct 0 2, Construct 0 3]\<rparr>) = 0 \<and>
   capacity \<lparr>m_ptr = Addr 0, m_count = 4, m_cap = 4\<rparr> = capacity three_of_four \<and>
   allocate (Amortized (11744051 / 8388608)) debug_env 5 Default (StdAllocator, fresh_heap) =
     Inr (\<lparr>m_ptr = Addr 0, m_count = 5, m_cap = 7\<rparr>,
          \<lparr>blocks = [Some [Some 0, Some 0, Some 0, Some 0, Some 0, None, None]], outcomes = replicate 11 True,
       trace = [Acquire 0 28, Construct 0 0, Construct 0 1, Construct 0 2, Construct 0 3,
               Construct 0 4]\<rparr>) \<and>
   float_to_Size (float_times (11744051 / 8388608) (Size_to_float 5)) = Some (capacity \<lparr>m_ptr = Addr 0, m_count = 5, m_cap = 7\<rparr>) \<and>
   capacity \<lparr>m_ptr = Addr 0, m_count = 5, m_cap = 7\<rparr> = 7 \<and>
   (11744051 / 8388608 :: rat) * of_int (uint (5 :: Size)) * (1 - 1 / 2 ^ 24)\<^sup>2 - 1 <
     of_int (uint (capacity \<lparr>m_ptr = Addr 0, m_count = 5, m_cap = 7\<rparr>)) \<and>
   (of_int (uint (capacity \<lparr>m_ptr = Addr 0, m_count = 5, m_cap = 7\<rparr>)) :: rat) \<le>
     11744051 / 8388608 * of_int (uint (5 :: Size)) * (1 + 1 / 2 ^ 24)\<^sup>2"
proof -
  have m: "(1 :: rat) < 3 / 2" by simp
  have m': "(1 :: rat) < 11744051 / 8388608" by simp
  have a: "allocate (Amortized (3 / 2)) debug_env 3 Default (StdAllocator, fresh_heap) =
     Inr (three_of_four, three_of_four_heap)"
    by code_simp
  have n: "(3 :: Size) \<noteq> 0" by simp
  have g2: "grow (Amortized (3 / 2)) debug_env 2 (three_of_four, three_of_four_heap) =
     Inr (\<lparr>m_ptr = Addr 1, m_count = 5, m_cap = 7\<rparr>,
          \<lparr>blocks = [None, Some [Some 0, Some 0, Some 0, Some 0, Some 0, None, None]], outcomes = replicate 10 True,
       trace = [Acquire 0 16, Construct 0 0, Construct 0 1, Construct 0 2, Acquire 1 28,
               Construct 1 0, Construct 1 1, Construct 1 2, Destruct 0 0, Destruct 0 1,
               Destruct 0 2, Release 0, Construct 1 3, Construct 1 4]\<rparr>)"
    by code_simp
  have c2: "capacity three_of_four < count three_of_four + 2" by code_simp
  have g1: "grow (Amortized (3 / 2)) debug_env 1 (three_of_four, three_of_four_heap) =
     Inr (\<lparr>m_ptr = Addr 0, m_count = 4, m_cap = 4\<rparr>,
          \<lparr>blocks = [Some [Some 0, Some 0, Some 0, Some 0]], outcomes = replicate 11 True,
       trace = [Acquire 0 16, Construct 0 0, Construct 0 1, Construct 0 2, Construct 0 3]\<rparr>)"
    by code_simp
  have c1: "\<not> capacity three_of_four < count three_of_four + 1" by code_simp
  have a5: "allocate (Amortized (11744051 / 8388608)) debug_env 5 Default (StdAllocator, fresh_heap) =
     Inr (\<lparr>m_ptr = Addr 0, m_count = 5, m_cap = 7\<rparr>,
          \<lparr>blocks = [Some [Some 0, Some 0, Some 0, Some 0, Some 0, None, None]], outcomes = replicate 11 True,
       trace = [Acquire 0 28, Construct 0 0, Construct 0 1, Construct 0 2, Construct 0 3,
               Construct 0 4]\<rparr>)"
    by code_simp
  have seven: "capacity \<lparr>m_ptr = Addr 0, m_count = 5, m_cap = 7\<rparr> = 7" by code_simp
  have b3: "binary32 (of_int (uint (3 :: Size)))" by code_simp
  have b4: "binary32 (3 / 2 * of_int (uint (3 :: Size)))" by code_simp
  from a n amortized_capacity_is_truncated [OF m, where env = debug_env and n = 3
      and ini = Default and this = StdAllocator and h = fresh_heap]
  have 1: "float_to_Size (float_times (3 / 2) (Size_to_float 3)) = Some (capacity three_of_four)"
    "count three_of_four = 3"
    "constructions (events fresh_heap three_of_four_heap) = [0..<unat (3 :: Size)]"
    "events fresh_heap three_of_four_heap =
     Acquire (length (blocks fresh_heap)) (capacity three_of_four * sizeof_T debug_env) #
     map (Construct (length (blocks fresh_heap))) [0..<unat (3 :: Size)]"
    by blast+
  from 1(1) b3 b4 amortized_capacity_is_truncated [OF m, where s = 3
      and c = "capacity three_of_four"]
  have e1: "(3 / 2 :: rat) * of_int (uint (3 :: Size)) * (1 - 1 / 2 ^ 24)\<^sup>2 - 1 <
     of_int (uint (capacity three_of_four))"
    "(of_int (uint (capacity three_of_four)) :: rat) \<le>
     3 / 2 * of_int (uint (3 :: Size)) * (1 + 1 / 2 ^ 24)\<^sup>2"
    "uint (capacity three_of_four) = \<lfloor>(3 / 2 :: rat) * of_int (uint (3 :: Size))\<rfloor>"
    by blast+
  from g2 amortized_capacity_is_truncated [OF m, where env = debug_env and k = 2
      and this = three_of_four and h = three_of_four_heap]
  have "if capacity three_of_four < count three_of_four + 2
     then acquisitions (events three_of_four_heap
       \<lparr>blocks = [None, Some [Some 0, Some 0, Some 0, Some 0, Some 0, None, None]], outcomes = replicate 10 True,
       trace = [Acquire 0 16, Construct 0 0, Construct 0 1, Construct 0 2, Acquire 1 28,
               Construct 1 0, Construct 1 1, Construct 1 2, Destruct 0 0, Destruct 0 1,
               Destruct 0 2, Release 0, Construct 1 3, Construct 1 4]\<rparr>) = 1 \<and>
       m_ptr \<lparr>m_ptr = Addr 1, m_count = 5, m_cap = 7\<rparr> = Addr (length (blocks three_of_four_heap)) \<and>
       float_to_Size (float_times (3 / 2) (Size_to_float (count three_of_four + 2))) =
         Some (capacity \<lparr>m_ptr = Addr 1, m_count = 5, m_cap = 7\<rparr>)
     else acquisitions (events three_of_four_heap
       \<lparr>blocks = [None, Some [Some 0, Some 0, Some 0, Some 0, Some 0, None, None]], outcomes = replicate 10 True,
       trace = [Acquire 0 16, Construct 0 0, Construct 0 1, Construct 0 2, Acquire 1 28,
               Construct 1 0, Construct 1 1, Construct 1 2, Destruct 0 0, Destruct 0 1,
               Destruct 0 2, Release 0, Construct 1 3, Construct 1 4]\<rparr>) = 0 \<and>
       m_ptr \<lparr>m_ptr = Addr 1, m_count = 5, m_cap = 7\<rparr> = m_ptr three_of_four \<and>
       capacity \<lparr>m_ptr = Addr 1, m_count = 5, m_cap = 7\<rparr> = capacity three_of_four"
    by blast
  with c2 have 2: "acquisitions (events three_of_four_heap
     \<lparr>blocks = [None, Some [Some 0, Some 0, Some 0, Some 0, Some 0, None, None]], outcomes = replicate 10 True,
       trace = [Acquire 0 16, Construct 0 0, Construct 0 1, Construct 0 2, Acquire 1 28,
               Construct 1 0, Construct 1 1, Construct 1 2, Destruct 0 0, Destruct 0 1,
               Destruct 0 2, Release 0, Construct 1 3, Construct 1 4]\<rparr>) = 1"
    "float_to_Size (float_times (3 / 2) (Size_to_float (count three_of_four + 2))) =
     Some (capacity \<lparr>m_ptr = Addr 1, m_count = 5, m_cap = 7\<rparr>)"
    by (simp_all only: if_True)
  from g1 amortized_capacity_is_truncated [OF m, where env = debug_env and k = 1
      and this = three_of_four and h = three_of_four_heap]
  have "if capacity three_of_four < count three_of_four + 1
     then acquisitions (events three_of_four_heap
       \<lparr>blocks = [Some [Some 0, Some 0, Some 0, Some 0]], outcomes = replicate 11 True,
       trace = [Acquire 0 16, Construct 0 0, Construct 0 1, Construct 0 2, Construct 0 3]\<rparr>) = 1 \<and>
       m_ptr \<lparr>m_ptr = Addr 0, m_count = 4, m_cap = 4\<rparr> = Addr (length (blocks three_of_four_heap)) \<and>
       float_to_Size (float_times (3 / 2) (Size_to_float (count three_of_four + 1))) =
         Some (capacity \<lparr>m_ptr = Addr 0, m_count = 4, m_cap = 4\<rparr>)
     else acquisitions (events three_of_four_heap
       \<lparr>blocks = [Some [Some 0, Some 0, Some 0, Some 0]], outcomes = replicate 11 True,
       trace = [Acquire 0 16, Construct 0 0, Construct 0 1, Construct 0 2, Construct 0 3]\<rparr>) = 0 \<and>
       m_ptr \<lparr>m_ptr = Addr 0, m_count = 4, m_cap = 4\<rparr> = m_ptr three_of_four \<and>
       capacity \<lparr>m_ptr = Addr 0, m_count = 4, m_cap = 4\<rparr> = capacity three_of_four"
    by blast
  with c1 have 3: "acquisitions (events three_of_four_heap
     \<lparr>blocks = [Some [Some 0, Some 0, Some 0, Some 0]], outcomes = replicate 11 True,
       trace = [Acquire 0 16, Construct 0 0, Construct 0 1, Construct 0 2, Construct 0 3]\<rparr>) = 0"
    "capacity \<lparr>m_ptr = Addr 0, m_count = 4, m_cap = 4\<rparr> = capacity three_of_four"
    by (simp_all only: if_False)
  from a5 amortized_capacity_is_truncated [OF m', where env = debug_env and n = 5
      and ini = Default and this = StdAllocator and h = fresh_heap]
  have 4: "float_to_Size (float_times (11744051 / 8388608) (Size_to_float 5)) = Some (capacity \<lparr>m_ptr = Addr 0, m_count = 5, m_cap = 7\<rparr>)"
    by blast
  from 4 amortized_capacity_is_truncated [OF m', where s = 5
      and c = "capacity \<lparr>m_ptr = Addr 0, m_count = 5, m_cap = 7\<rparr>"]
  have e4: "(11744051 / 8388608 :: rat) * of_int (uint (5 :: Size)) * (1 - 1 / 2 ^ 24)\<^sup>2 - 1 <
     of_int (uint (capacity \<lparr>m_ptr = Addr 0, m_count = 5, m_cap = 7\<rparr>))"
    "(of_int (uint (capacity \<lparr>m_ptr = Addr 0, m_count = 5, m_cap = 7\<rparr>)) :: rat) \<le>
     11744051 / 8388608 * of_int (uint (5 :: Size)) * (1 + 1 / 2 ^ 24)\<^sup>2"
    by blast+
  from a 1 e1(1,2) b3 b4 e1(3) g2 2 g1 3 a5 4 seven e4 show ?thesis by (intro conjI)
qed

text \<open>
  C2 as stated fails: with \<open>m = 1.5\<close>, \<open>allocate(1)\<close> reserves a capacity of 1, and the
  product 1.5 rounded up is 2.
\<close>

theorem capacity_is_not_the_ceiling:
  "allocate (Amortized (3 / 2)) debug_env 1 Default (StdAllocator, fresh_heap) =
     Inr (\<lparr>m_ptr = Addr 0, m_count = 1, m_cap = 1\<rparr>,
          \<lparr>blocks = [Some [Some 0]], outcomes = replicate 11 True,
            trace = [Acquire 0 4, Construct 0 0]\<rparr>) \<and>
   capacity \<lparr>m_ptr = Addr 0, m_count = 1, m_cap = 1\<rparr> = 1 \<and>
   \<lceil>(3 / 2 :: rat) * of_nat (unat (1 :: Size))\<rceil> = 2"
  by code_simp

subsection \<open>C3: a failed allocation\<close>

text \<open>
  C3. A call that fails with \<open>AllocException\<close> is to leave count, capacity, pointer and
  elements as they were. \<open>FutureAllocator::allocate\<close> assigns \<open>_cap\<close> before it calls
  \<open>malloc\<close>: on a new amortized allocator with multiplier 1.5, \<open>allocate(2)\<close> with a heap
  that returns no block throws, and the capacity, 0 before the call, is 3 after it. The
  other three paths (\<open>StdAllocator::allocate\<close>, both \<open>_grow\<close>) throw before they assign
  anything, as lemma \<open>failure_leaves_object\<close> shows.
\<close>

theorem failed_allocate_changes_capacity:
  "Future_allocate debug_env (3 / 2) 2 Default
     (\<lparr>m_ptr = Null, m_count = 0, m_cap = 0\<rparr>, \<lparr>blocks = [], outcomes = [False], trace = []\<rparr>) =
   Inl (AllocException
     (\<lparr>m_ptr = Null, m_count = 0, m_cap = 3\<rparr>, \<lparr>blocks = [], outcomes = [], trace = []\<rparr>)) \<and>
   capacity \<lparr>m_ptr = Null, m_count = 0, m_cap = 0\<rparr> = 0 \<and>
   capacity \<lparr>m_ptr = Null, m_count = 0, m_cap = 3\<rparr> = 3"
  by code_simp

subsection \<open>C4: the order of construction and destruction\<close>

text \<open>
  C4, as it holds. The claim has \<open>free\<close> destruct from the highest index down; its loop
  counts upwards. What holds, for every call that returns:
  \<^item> \<open>grow\<close> runs the constructors in strictly increasing index order: at
    \<open>0, \<dots>, count' - 1\<close> when it moves the elements to a new block (the exact-fit
    strategy always, the amortized one when \<open>count + k\<close> exceeds the capacity), and at
    \<open>count, \<dots>, count' - 1\<close> when it stays in the block;
  \<^item> \<open>shrink\<close> runs the destructors in strictly decreasing index order, at
    \<open>count - 1, \<dots>, count'\<close>;
  \<^item> \<open>free\<close> runs the destructors in strictly increasing index order, at
    \<open>0, \<dots>, count - 1\<close>.
  Here \<open>count\<close> is the count before the call and \<open>count'\<close> the count after it.
\<close>

theorem construction_and_destruction_order:
  "(grow cls env k (this, h) = Inr (this', h') \<longrightarrow>
      sorted_wrt (<) (constructions (events h h')) \<and>
      constructions (events h h') =
        [(case cls of
            ExactFit \<Rightarrow> 0
          | Amortized m \<Rightarrow> if capacity this < count this + k then 0 else unat (count this))
         ..<unat (count this')]) \<and>
   (shrink cls k (this, h) = Inr (this', h') \<longrightarrow>
      sorted_wrt (>) (destructions (events h h')) \<and>
      destructions (events h h') = rev [unat (count this')..<unat (count this)]) \<and>
   (free env (this, h) = Inr (this', h') \<longrightarrow>
      sorted_wrt (<) (destructions (events h h')) \<and>
      destructions (events h h') = [0..<unat (count this)])"
proof (intro conjI impI)
  assume g: "grow cls env k (this, h) = Inr (this', h')"
  from grow_constructions [OF g]
  show "constructions (events h h') =
        [(case cls of
            ExactFit \<Rightarrow> 0
          | Amortized m \<Rightarrow> if capacity this < count this + k then 0 else unat (count this))
         ..<unat (count this')]" .
  then show "sorted_wrt (<) (constructions (events h h'))" by simp
next
  assume s: "shrink cls k (this, h) = Inr (this', h')"
  from shrink_destructions [OF s]
  show d: "destructions (events h h') = rev [unat (count this')..<unat (count this)]" .
  have "sorted_wrt (>) (rev [unat (count this')..<unat (count this)])"
    by (simp add: sorted_wrt_rev)
  with d show "sorted_wrt (>) (destructions (events h h'))" by simp
next
  assume f: "free env (this, h) = Inr (this', h')"
  from events_append [OF free_control(2) [OF f]]
  show d: "destructions (events h h') = [0..<unat (count this)]"
    by (simp add: count_def)
  then show "sorted_wrt (<) (destructions (events h h'))" by simp
qed

theorem construction_and_destruction_order_witness:
  "grow ExactFit debug_env 1 (two_elements, two_elements_heap) =
     Inr (\<lparr>m_ptr = Addr 1, m_count = 3, m_cap = 3\<rparr>,
          \<lparr>blocks = [None, Some [Some 0, Some 0, Some 0]], outcomes = replicate 10 True,
            trace = [Acquire 0 8, Construct 0 0, Construct 0 1, Acquire 1 12, Construct 1 0,
                    Construct 1 1, Destruct 0 0, Destruct 0 1, Release 0, Construct 1 2]\<rparr>) \<and>
   constructions (events two_elements_heap
     \<lparr>blocks = [None, Some [Some 0, Some 0, Some 0]], outcomes = replicate 10 True,
       trace = [Acquire 0 8, Construct 0 0, Construct 0 1, Acquire 1 12, Construct 1 0,
               Construct 1 1, Destruct 0 0, Destruct 0 1, Release 0, Construct 1 2]\<rparr>) =
     [0..<unat (count \<lparr>m_ptr = Addr 1, m_count = 3, m_cap = 3\<rparr>)] \<and>
   shrink ExactFit 1 (two_elements, two_elements_heap) =
     Inr (\<lparr>m_ptr = Addr 0, m_count = 1, m_cap = 0\<rparr>,
          \<lparr>blocks = [Some [Some 0, None]], outcomes = replicate 11 True,
            trace = [Acquire 0 8, Construct 0 0, Construct 0 1, Destruct 0 1]\<rparr>) \<and>
   destructions (events two_elements_heap
     \<lparr>blocks = [Some [Some 0, None]], outcomes = replicate 11 True,
       trace = [Acquire 0 8, Construct 0 0, Construct 0 1, Destruct 0 1]\<rparr>) =
     rev [unat (count \<lparr>m_ptr = Addr 0, m_count = 1, m_cap = 0\<rparr>)..<unat (count two_elements)] \<and>
   free debug_env (two_elements, two_elements_heap) =
     Inr (\<lparr>m_ptr = Sentinel, m_count = 2, m_cap = 0\<rparr>,
          \<lparr>blocks = [None], outcomes = replicate 11 True,
            trace = [Acquire 0 8, Construct 0 0, Construct 0 1, Destruct 0 0, Destruct 0 1,
                    Release 0]\<rparr>) \<and>
   destructions (events two_elements_heap
     \<lparr>blocks = [None], outcomes = replicate 11 True,
       trace = [Acquire 0 8, Construct 0 0, Construct 0 1, Destruct 0 0, Destruct 0 1,
               Release 0]\<rparr>) =
     [0..<unat (count two_elements)]"
proof -
  have g: "grow ExactFit debug_env 1 (two_elements, two_elements_heap) =
     Inr (\<lparr>m_ptr = Addr 1, m_count = 3, m_cap = 3\<rparr>,
          \<lparr>blocks = [None, Some [Some 0, Some 0, Some 0]], outcomes = replicate 10 True,
            trace = [Acquire 0 8, Construct 0 0, Construct 0 1, Acquire 1 12, Construct 1 0,
                    Construct 1 1, Destruct 0 0, Destruct 0 1, Release 0, Construct 1 2]\<rparr>)"
    by code_simp
  have s: "shrink ExactFit 1 (two_elements, two_elements_heap) =
     Inr (\<lparr>m_ptr = Addr 0, m_count = 1, m_cap = 0\<rparr>,
          \<lparr>blocks = [Some [Some 0, None]], outcomes = replicate 11 True,
            trace = [Acquire 0 8, Construct 0 0, Construct 0 1, Destruct 0 1]\<rparr>)"
    by code_simp
  have f: "free debug_env (two_elements, two_elements_heap) =
     Inr (\<lparr>m_ptr = Sentinel, m_count = 2, m_cap = 0\<rparr>,
          \<lparr>blocks = [None], outcomes = replicate 11 True,
            trace = [Acquire 0 8, Construct 0 0, Construct 0 1, Destruct 0 0, Destruct 0 1,
                    Release 0]\<rparr>)"
    by code_simp
  from g construction_and_destruction_order [where cls = ExactFit and env = debug_env
      and k = 1 and this = two_elements and h = two_elements_heap]
  have "constructions (events two_elements_heap
     \<lparr>blocks = [None, Some [Some 0, Some 0, Some 0]], outcomes = replicate 10 True,
       trace = [Acquire 0 8, Construct 0 0, Construct 0 1, Acquire 1 12, Construct 1 0,
               Construct 1 1, Destruct 0 0, Destruct 0 1, Release 0, Construct 1 2]\<rparr>) =
     [(case ExactFit of
         ExactFit \<Rightarrow> 0
       | Amortized m \<Rightarrow>
           if capacity two_elements < count two_elements + 1 then 0
           else unat (count two_elements))
      ..<unat (count \<lparr>m_ptr = Addr 1, m_count = 3, m_cap = 3\<rparr>)]"
    by blast
  then have 1: "constructions (events two_elements_heap
     \<lparr>blocks = [None, Some [Some 0, Some 0, Some 0]], outcomes = replicate 10 True,
       trace = [Acquire 0 8, Construct 0 0, Construct 0 1, Acquire 1 12, Construct 1 0,
               Construct 1 1, Destruct 0 0, Destruct 0 1, Release 0, Construct 1 2]\<rparr>) =
     [0..<unat (count \<lparr>m_ptr = Addr 1, m_count = 3, m_cap = 3\<rparr>)]"
    by (simp only: strategy.case)
  from s construction_and_destruction_order [where cls = ExactFit and k = 1
      and this = two_elements and h = two_elements_heap]
  have 2: "destructions (events two_elements_heap
     \<lparr>blocks = [Some [Some 0, None]], outcomes = replicate 11 True,
       trace = [Acquire 0 8, Construct 0 0, Construct 0 1, Destruct 0 1]\<rparr>) =
     rev [unat (count \<lparr>m_ptr = Addr 0, m_count = 1, m_cap = 0\<rparr>)..<unat (count two_elements)]"
    by blast
  from f construction_and_destruction_order [where env = debug_env
      and this = two_elements and h = two_elements_heap]
  have 3: "destructions (events two_elements_heap
     \<lparr>blocks = [None], outcomes = replicate 11 True,
       trace = [Acquire 0 8, Construct 0 0, Construct 0 1, Destruct 0 0, Destruct 0 1,
               Release 0]\<rparr>) =
     [0..<unat (count two_elements)]"
    by blast
  from g 1 s 2 f 3 show ?thesis by (intro conjI)
qed

text \<open>
  C4 as stated fails for \<open>free\<close>: on a buffer of two elements the destructor runs at index
  0 and then at index 1, which is not from the highest index down.
\<close>

theorem free_destructs_low_to_high:
  "free debug_env (two_elements, two_elements_heap) =
     Inr (\<lparr>m_ptr = Sentinel, m_count = 2, m_cap = 0\<rparr>,
          \<lparr>blocks = [None], outcomes = replicate 11 True,
            trace = [Acquire 0 8, Construct 0 0, Construct 0 1, Destruct 0 0, Destruct 0 1,
                    Release 0]\<rparr>) \<and>
   destructions (events two_elements_heap
     \<lparr>blocks = [None], outcomes = replicate 11 True,
       trace = [Acquire 0 8, Construct 0 0, Construct 0 1, Destruct 0 0, Destruct 0 1,
               Release 0]\<rparr>) = [0, 1] \<and>
   \<not> sorted_wrt (>) [0, 1 :: nat]"
  by code_simp

subsection \<open>C5: contract checks\<close>

text \<open>
  C5, as it holds, in a debug build. The claim is that each of four misuses halts the call
  that commits it. What holds:
  \<^item> a \<open>free\<close> that follows a \<open>free\<close> that returned is halted, with the message of the
    double free;
  \<^item> an \<open>allocate\<close> of the exact-fit strategy that follows an \<open>allocate(n, \<dots>)\<close> with
    \<open>n \<noteq> 0\<close> that returned is halted, with the message of the leak;
  \<^item> the constructor of the amortized allocator is halted for a multiplier less than 1, and
    returns for every multiplier from 1 on, 1 itself included;
  \<^item> \<open>shrink\<close> checks nothing: for a decrement greater than the count it returns and has
    changed neither the object nor the heap (the difference wraps around, and the loop is
    not entered).
  \<open>FutureAllocator::allocate\<close> has no check; nothing is said of it here.
\<close>

theorem contract_checks_in_debug_builds:
  assumes "\<not> NDEBUG env"
  shows
    "(free env (this, h) = Inr (this', h') \<longrightarrow>
        free env (this', h') = Inl (Abort ''Double free in StdAllocator'')) \<and>
     (n \<noteq> 0 \<and> allocate ExactFit env n ini (this, h) = Inr (this', h') \<longrightarrow>
        allocate ExactFit env n' ini' (this', h') =
          Inl (Abort ''Allocating with StdAllocator while already allocated, this is a memory leak'')) \<and>
     (multiplier < 1 \<longrightarrow>
        FutureAllocator env multiplier = Inl (Abort ''Multiplier should not be less than 1.'')) \<and>
     (1 \<le> multiplier \<longrightarrow> FutureAllocator env multiplier = Inr StdAllocator) \<and>
     (count this < k \<longrightarrow> shrink cls k (this, h) = Inr (this, h))"
proof (intro conjI impI)
  assume f: "free env (this, h) = Inr (this', h')"
  from free_control(1) [OF f] assms have "m_ptr this' = Sentinel" by simp
  with assms show "free env (this', h') = Inl (Abort ''Double free in StdAllocator'')"
    by (simp add: free_def CHI_ASSERT_def)
next
  assume "n \<noteq> 0 \<and> allocate ExactFit env n ini (this, h) = Inr (this', h')"
  then have n: "n \<noteq> 0" and a: "Std_allocate env n ini (this, h) = Inr (this', h')"
    by (simp_all add: allocate_def)
  from Std_allocate_control(2) [OF a n] have "m_ptr this' = Addr (length (blocks h))" by simp
  with assms show "allocate ExactFit env n' ini' (this', h') =
      Inl (Abort ''Allocating with StdAllocator while already allocated, this is a memory leak'')"
    by (simp add: allocate_def Std_allocate_def CHI_ASSERT_def)
next
  assume "multiplier < 1"
  with assms show "FutureAllocator env multiplier = Inl (Abort ''Multiplier should not be less than 1.'')"
    by (simp add: FutureAllocator_def CHI_ASSERT_def)
next
  assume "1 \<le> multiplier"
  then show "FutureAllocator env multiplier = Inr StdAllocator"
    by (simp add: FutureAllocator_def CHI_ASSERT_def)
next
  assume "count this < k"
  then show "shrink cls k (this, h) = Inr (this, h)"
    by (simp add: shrink_def count_def shrink_past_zero)
qed

theorem contract_checks_in_debug_builds_witness:
  "\<not> NDEBUG debug_env \<and>
   free debug_env (two_elements, two_elements_heap) =
     Inr (\<lparr>m_ptr = Sentinel, m_count = 2, m_cap = 0\<rparr>,
          \<lparr>blocks = [None], outcomes = replicate 11 True,
            trace = [Acquire 0 8, Construct 0 0, Construct 0 1, Destruct 0 0, Destruct 0 1,
                    Release 0]\<rparr>) \<and>
   free debug_env
     (\<lparr>m_ptr = Sentinel, m_count = 2, m_cap = 0\<rparr>,
      \<lparr>blocks = [None], outcomes = replicate 11 True,
       trace = [Acquire 0 8, Construct 0 0, Construct 0 1, Destruct 0 0, Destruct 0 1,
               Release 0]\<rparr>) =
     Inl (Abort ''Double free in StdAllocator'') \<and>
   allocate ExactFit debug_env 2 Default (StdAllocator, fresh_heap) =
     Inr (two_elements, two_elements_heap) \<and>
   allocate ExactFit debug_env 1 Default (two_elements, two_elements_heap) =
     Inl (Abort ''Allocating with StdAllocator while already allocated, this is a memory leak'') \<and>
   FutureAllocator debug_env (1 / 2) = Inl (Abort ''Multiplier should not be less than 1.'') \<and>
   FutureAllocator debug_env 1 = Inr StdAllocator \<and>
   count two_elements < 3 \<and>
   shrink ExactFit 3 (two_elements, two_elements_heap) = Inr (two_elements, two_elements_heap)"
proof -
  have d: "\<not> NDEBUG debug_env" by code_simp
  have f: "free debug_env (two_elements, two_elements_heap) =
     Inr (\<lparr>m_ptr = Sentinel, m_count = 2, m_cap = 0\<rparr>,
          \<lparr>blocks = [None], outcomes = replicate 11 True,
            trace = [Acquire 0 8, Construct 0 0, Construct 0 1, Destruct 0 0, Destruct 0 1,
                    Release 0]\<rparr>)"
    by code_simp
  have a: "(2 :: Size) \<noteq> 0 \<and>
    allocate ExactFit debug_env 2 Default (StdAllocator, fresh_heap) =
     Inr (two_elements, two_elements_heap)"
    by code_simp
  have lt: "(1 / 2 :: rat) < 1" by simp
  have ge: "(1 :: rat) \<le> 1" by simp
  have c: "count two_elements < 3" by code_simp
  from f contract_checks_in_debug_builds [OF d, where this = two_elements
      and h = two_elements_heap]
  have 1: "free debug_env
     (\<lparr>m_ptr = Sentinel, m_count = 2, m_cap = 0\<rparr>,
      \<lparr>blocks = [None], outcomes = replicate 11 True,
       trace = [Acquire 0 8, Construct 0 0, Construct 0 1, Destruct 0 0, Destruct 0 1,
               Release 0]\<rparr>) =
     Inl (Abort ''Double free in StdAllocator'')"
    by blast
  from a contract_checks_in_debug_builds [OF d, where n = 2 and ini = Default
      and this = StdAllocator and h = fresh_heap and n' = 1 and ini' = Default]
  have 2: "allocate ExactFit debug_env 1 Default (two_elements, two_elements_heap) =
     Inl (Abort ''Allocating with StdAllocator while already allocated, this is a memory leak'')"
    by blast
  from lt contract_checks_in_debug_builds [OF d, where multiplier = "1 / 2"]
  have 3: "FutureAllocator debug_env (1 / 2) = Inl (Abort ''Multiplier should not be less than 1.'')"
    by blast
  from ge contract_checks_in_debug_builds [OF d, where multiplier = 1]
  have 4: "FutureAllocator debug_env 1 = Inr StdAllocator"
    by blast
  from c contract_checks_in_debug_builds [OF d, where this = two_elements and k = 3
      and cls = ExactFit and h = two_elements_heap]
  have 5: "shrink ExactFit 3 (two_elements, two_elements_heap) = Inr (two_elements, two_elements_heap)"
    by blast
  from a have a': "allocate ExactFit debug_env 2 Default (StdAllocator, fresh_heap) =
     Inr (two_elements, two_elements_heap)"
    by blast
  from d f 1 a' 2 3 4 c 5 show ?thesis by (intro conjI)
qed

text \<open>
  C5 as stated fails in a debug build: shrinking a buffer of two elements by three returns
  and leaves the buffer as it was, and the constructor accepts the multiplier 1.0, which is
  not greater than 1.0.
\<close>

theorem unchecked_contract_violations:
  "\<not> NDEBUG debug_env \<and> count two_elements = 2 \<and>
   shrink ExactFit 3 (two_elements, two_elements_heap) = Inr (two_elements, two_elements_heap) \<and>
   shrink (Amortized (3 / 2)) 4 (three_of_four, three_of_four_heap) = Inr (three_of_four, three_of_four_heap) \<and>
   FutureAllocator debug_env 1 = Inr StdAllocator"
  by code_simp

subsection \<open>C6: allocate, then grow\<close>

text \<open>
  C6, as it holds. The claim is for every \<open>n\<close> and \<open>k\<close>; it holds for those whose sum is a
  value of \<open>Size\<close>. If \<open>allocate(n, \<dots>)\<close> and then \<open>grow(k)\<close> both return and
  \<open>n + k < 2^64\<close>, then \<open>count() = n + k\<close>, the elements at the indices below \<open>n\<close> are the
  elements \<open>allocate\<close> constructed there (each the value of its initializer), and the
  elements at the indices from \<open>n\<close> up to \<open>n + k - 1\<close> have the value of the default
  constructor. This is so in either strategy and for each of the four initializers.
\<close>

theorem allocate_then_grow:
  assumes a: "allocate cls env n ini (this, h) = Inr (this1, h1)"
    and g: "grow cls env k (this1, h1) = Inr (this2, h2)"
    and fits: "unat n + unat k < 2 ^ 64"
  shows "count this2 = n + k \<and>
     (\<forall>i<unat n. subscript (this2, h2) i = subscript (this1, h1) i \<and>
        subscript (this1, h1) i = init_value env ini i \<and> init_value env ini i \<noteq> None) \<and>
     (\<forall>i. unat n \<le> i \<and> i < unat n + unat k \<longrightarrow>
        subscript (this2, h2) i = Some (T_default env))"
proof -
  from allocate_allocated [OF a] have alloc: "allocated (this1, h1)"
    and cnt: "m_count this1 = n"
    and ini: "\<forall>i<unat n. subscript (this1, h1) i = init_value env ini i"
    by simp_all
  from grow_allocated [OF g alloc] cnt
  have keep: "\<forall>i<unat n. subscript (this2, h2) i = subscript (this1, h1) i"
    and new: "\<forall>i. unat n \<le> i \<and> i < unat (m_count this2) \<longrightarrow>
            subscript (this2, h2) i = Some (T_default env)"
    and cnt2: "m_count this2 = (if n < n + k then n + k else n)"
    by simp_all
  from cnt2 grown_count [OF fits] have c2: "m_count this2 = n + k" by simp
  from fits have u: "unat (n + k) = unat n + unat k"
    by (simp add: unat_add_lem [THEN iffD1])
  have live: "init_value env ini i \<noteq> None" if "i < unat n" for i
    using allocated_elements [OF alloc, of i] that cnt ini by auto
  from c2 have "count this2 = n + k" by (simp add: count_def)
  moreover from keep ini live
  have "\<forall>i<unat n. subscript (this2, h2) i = subscript (this1, h1) i \<and>
        subscript (this1, h1) i = init_value env ini i \<and> init_value env ini i \<noteq> None"
    by simp
  moreover from new c2 u
  have "\<forall>i. unat n \<le> i \<and> i < unat n + unat k \<longrightarrow>
        subscript (this2, h2) i = Some (T_default env)"
    by simp
  ultimately show ?thesis by blast
qed

theorem allocate_then_grow_witness:
  "allocate ExactFit debug_env 2 (Copy [5, 6]) (StdAllocator, fresh_heap) =
     Inr (\<lparr>m_ptr = Addr 0, m_count = 2, m_cap = 0\<rparr>,
          \<lparr>blocks = [Some [Some (5 :: nat), Some 6]], outcomes = replicate 11 True,
            trace = [Acquire 0 8, Construct 0 0, Construct 0 1]\<rparr>) \<and>
   grow ExactFit debug_env 2
     (\<lparr>m_ptr = Addr 0, m_count = 2, m_cap = 0\<rparr>,
      \<lparr>blocks = [Some [Some (5 :: nat), Some 6]], outcomes = replicate 11 True,
       trace = [Acquire 0 8, Construct 0 0, Construct 0 1]\<rparr>) =
     Inr (\<lparr>m_ptr = Addr 1, m_count = 4, m_cap = 4\<rparr>,
          \<lparr>blocks = [None, Some [Some (5 :: nat), Some 6, Some 0, Some 0]], outcomes = replicate 10 True,
            trace = [Acquire 0 8, Construct 0 0, Construct 0 1, Acquire 1 16, Construct 1 0,
                    Construct 1 1, Destruct 0 0, Destruct 0 1, Release 0, Construct 1 2,
                    Construct 1 3]\<rparr>) \<and>
   count \<lparr>m_ptr = Addr 1, m_count = 4, m_cap = 4\<rparr> = 2 + 2 \<and>
   subscript
     (\<lparr>m_ptr = Addr 1, m_count = 4, m_cap = 4\<rparr>,
      \<lparr>blocks = [None, Some [Some (5 :: nat), Some 6, Some 0, Some 0]], outcomes = replicate 10 True,
       trace = [Acquire 0 8, Construct 0 0, Construct 0 1, Acquire 1 16, Construct 1 0,
               Construct 1 1, Destruct 0 0, Destruct 0 1, Release 0, Construct 1 2,
               Construct 1 3]\<rparr>) 1 =
   subscript
     (\<lparr>m_ptr = Addr 0, m_count = 2, m_cap = 0\<rparr>,
      \<lparr>blocks = [Some [Some (5 :: nat), Some 6]], outcomes = replicate 11 True,
       trace = [Acquire 0 8, Construct 0 0, Construct 0 1]\<rparr>) 1 \<and>
   subscript
     (\<lparr>m_ptr = Addr 0, m_count = 2, m_cap = 0\<rparr>,
      \<lparr>blocks = [Some [Some (5 :: nat), Some 6]], outcomes = replicate 11 True,
       trace = [Acquire 0 8, Construct 0 0, Construct 0 1]\<rparr>) 1 =
   init_value debug_env (Copy [5, 6]) 1 \<and>
   subscript
     (\<lparr>m_ptr = Addr 1, m_count = 4, m_cap = 4\<rparr>,
      \<lparr>blocks = [None, Some [Some (5 :: nat), Some 6, Some 0, Some 0]], outcomes = replicate 10 True,
       trace = [Acquire 0 8, Construct 0 0, Construct 0 1, Acquire 1 16, Construct 1 0,
               Construct 1 1, Destruct 0 0, Destruct 0 1, Release 0, Construct 1 2,
               Construct 1 3]\<rparr>) 3 =
   Some (T_default debug_env)"
proof -
  have a: "allocate ExactFit debug_env 2 (Copy [5, 6]) (StdAllocator, fresh_heap) =
     Inr (\<lparr>m_ptr = Addr 0, m_count = 2, m_cap = 0\<rparr>,
          \<lparr>blocks = [Some [Some (5 :: nat), Some 6]], outcomes = replicate 11 True,
            trace = [Acquire 0 8, Construct 0 0, Construct 0 1]\<rparr>)"
    by code_simp
  have g: "grow ExactFit debug_env 2
     (\<lparr>m_ptr = Addr 0, m_count = 2, m_cap = 0\<rparr>,
      \<lparr>blocks = [Some [Some (5 :: nat), Some 6]], outcomes = replicate 11 True,
       trace = [Acquire 0 8, Construct 0 0, Construct 0 1]\<rparr>) =
     Inr (\<lparr>m_ptr = Addr 1, m_count = 4, m_cap = 4\<rparr>,
          \<lparr>blocks = [None, Some [Some (5 :: nat), Some 6, Some 0, Some 0]], outcomes = replicate 10 True,
            trace = [Acquire 0 8, Construct 0 0, Construct 0 1, Acquire 1 16, Construct 1 0,
                    Construct 1 1, Destruct 0 0, Destruct 0 1, Release 0, Construct 1 2,
                    Construct 1 3]\<rparr>)"
    by code_simp
  have fits: "unat (2 :: Size) + unat (2 :: Size) < 2 ^ 64" by simp
  have i1: "(1 :: nat) < unat (2 :: Size)" by simp
  have i3: "unat (2 :: Size) \<le> (3 :: nat) \<and> (3 :: nat) < unat (2 :: Size) + unat (2 :: Size)" by simp
  note t = allocate_then_grow [OF a g fits]
  note keep = t [THEN conjunct2, THEN conjunct1, rule_format, OF i1]
  note new = t [THEN conjunct2, THEN conjunct2, rule_format, OF i3]
  from t have 1: "count \<lparr>m_ptr = Addr 1, m_count = 4, m_cap = 4\<rparr> = 2 + 2"
    by (rule conjunct1)
  from keep have 2: "subscript
     (\<lparr>m_ptr = Addr 1, m_count = 4, m_cap = 4\<rparr>,
      \<lparr>blocks = [None, Some [Some (5 :: nat), Some 6, Some 0, Some 0]], outcomes = replicate 10 True,
       trace = [Acquire 0 8, Construct 0 0, Construct 0 1, Acquire 1 16, Construct 1 0,
               Construct 1 1, Destruct 0 0, Destruct 0 1, Release 0, Construct 1 2,
               Construct 1 3]\<rparr>) 1 =
   subscript
     (\<lparr>m_ptr = Addr 0, m_count = 2, m_cap = 0\<rparr>,
      \<lparr>blocks = [Some [Some (5 :: nat), Some 6]], outcomes = replicate 11 True,
       trace = [Acquire 0 8, Construct 0 0, Construct 0 1]\<rparr>) 1"
    by (rule conjunct1)
  from keep have 3: "subscript
     (\<lparr>m_ptr = Addr 0, m_count = 2, m_cap = 0\<rparr>,
      \<lparr>blocks = [Some [Some (5 :: nat), Some 6]], outcomes = replicate 11 True,
       trace = [Acquire 0 8, Construct 0 0, Construct 0 1]\<rparr>) 1 =
   init_value debug_env (Copy [5, 6]) 1"
    by (rule conjunct2 [THEN conjunct1])
  from new have 4: "subscript
     (\<lparr>m_ptr = Addr 1, m_count = 4, m_cap = 4\<rparr>,
      \<lparr>blocks = [None, Some [Some (5 :: nat), Some 6, Some 0, Some 0]], outcomes = replicate 10 True,
       trace = [Acquire 0 8, Construct 0 0, Construct 0 1, Acquire 1 16, Construct 1 0,
               Construct 1 1, Destruct 0 0, Destruct 0 1, Release 0, Construct 1 2,
               Construct 1 3]\<rparr>) 3 =
   Some (T_default debug_env)" .
  from a g 1 2 3 4 show ?thesis by (intro conjI)
qed

text \<open>
  C6 as stated fails where \<open>n + k\<close> is not a value of \<open>Size\<close>. With the amortized strategy
  and \<open>m = 1.5\<close>, \<open>allocate(5)\<close> and then \<open>grow(2^64 - 2)\<close> both return: the sum wraps to 3,
  which the capacity 7 covers, and the loop that constructs the new elements is not
  entered. The count is 5 afterwards, not \<open>n + k\<close>.
\<close>

theorem grow_past_the_largest_size:
  "unat (count \<lparr>m_ptr = Addr 0, m_count = 5, m_cap = 7\<rparr>) \<noteq> 5 + 18446744073709551614 \<and>
   run (Amortized (3 / 2)) debug_env [Allocate 5 Default, Grow 18446744073709551614]
     (StdAllocator, fresh_heap) =
     Inr (\<lparr>m_ptr = Addr 0, m_count = 5, m_cap = 7\<rparr>,
          \<lparr>blocks = [Some [Some 0, Some 0, Some 0, Some 0, Some 0, None, None]], outcomes = replicate 11 True,
            trace = [Acquire 0 28, Construct 0 0, Construct 0 1, Construct 0 2,
                    Construct 0 3, Construct 0 4]\<rparr>) \<and>
   count \<lparr>m_ptr = Addr 0, m_count = 5, m_cap = 7\<rparr> = 5 \<and>
   (5 :: Size) + 18446744073709551614 = 3 \<and>
   count \<lparr>m_ptr = Addr 0, m_count = 5, m_cap = 7\<rparr> \<noteq> 5 + 18446744073709551614"
proof -
  have nat: "unat (count \<lparr>m_ptr = Addr 0, m_count = 5, m_cap = 7\<rparr>) \<noteq> 5 + 18446744073709551614"
    by (simp add: count_def)
  have size: "run (Amortized (3 / 2)) debug_env [Allocate 5 Default, Grow 18446744073709551614]
     (StdAllocator, fresh_heap) =
     Inr (\<lparr>m_ptr = Addr 0, m_count = 5, m_cap = 7\<rparr>,
          \<lparr>blocks = [Some [Some 0, Some 0, Some 0, Some 0, Some 0, None, None]], outcomes = replicate 11 True,
            trace = [Acquire 0 28, Construct 0 0, Construct 0 1, Construct 0 2,
                    Construct 0 3, Construct 0 4]\<rparr>) \<and>
   count \<lparr>m_ptr = Addr 0, m_count = 5, m_cap = 7\<rparr> = 5 \<and>
   (5 :: Size) + 18446744073709551614 = 3 \<and>
   count \<lparr>m_ptr = Addr 0, m_count = 5, m_cap = 7\<rparr> \<noteq> 5 + 18446744073709551614"
    by code_simp
  from nat size show ?thesis by (rule conjI)
qed

subsection \<open>C7: \<open>resize\<close>\<close>

text \<open>
  C7. For every buffer and every \<open>c\<close>, \<open>resize(c)\<close> is the call \<open>grow(c - count)\<close> when
  \<open>c > count\<close>, the call \<open>shrink(count - c)\<close> when \<open>c < count\<close>, and changes nothing, neither
  the object nor the heap, when \<open>c = count\<close>. The results are equal as a whole: the
  object, the heap, the trace of events and the way the call ends.
\<close>

theorem resize_grow_shrink_noop:
  "(count this < c \<longrightarrow> resize cls env c (this, h) = grow cls env (c - count this) (this, h)) \<and>
   (c < count this \<longrightarrow> resize cls env c (this, h) = shrink cls (count this - c) (this, h)) \<and>
   (c = count this \<longrightarrow> resize cls env c (this, h) = Inr (this, h))"
  by (auto simp: resize_def)

theorem resize_grow_shrink_noop_witness:
  "count two_elements < 3 \<and>
   resize ExactFit debug_env 3 (two_elements, two_elements_heap) =
     grow ExactFit debug_env (3 - count two_elements) (two_elements, two_elements_heap) \<and>
   1 < count two_elements \<and>
   resize ExactFit debug_env 1 (two_elements, two_elements_heap) =
     shrink ExactFit (count two_elements - 1) (two_elements, two_elements_heap) \<and>
   3 = count three_of_four \<and>
   resize (Amortized (3 / 2)) debug_env 3 (three_of_four, three_of_four_heap) =
     Inr (three_of_four, three_of_four_heap)"
proof -
  have g: "count two_elements < 3" by code_simp
  have s: "1 < count two_elements" by code_simp
  have n: "3 = count three_of_four" by code_simp
  from g resize_grow_shrink_noop [where this = two_elements and c = 3 and cls = ExactFit
      and env = debug_env and h = two_elements_heap]
  have 1: "resize ExactFit debug_env 3 (two_elements, two_elements_heap) =
     grow ExactFit debug_env (3 - count two_elements) (two_elements, two_elements_heap)"
    by blast
  from s resize_grow_shrink_noop [where this = two_elements and c = 1 and cls = ExactFit
      and env = debug_env and h = two_elements_heap]
  have 2: "resize ExactFit debug_env 1 (two_elements, two_elements_heap) =
     shrink ExactFit (count two_elements - 1) (two_elements, two_elements_heap)"
    by blast
  from n resize_grow_shrink_noop [where this = three_of_four and c = 3
      and cls = "Amortized (3 / 2)" and env = debug_env and h = three_of_four_heap]
  have 3: "resize (Amortized (3 / 2)) debug_env 3 (three_of_four, three_of_four_heap) =
     Inr (three_of_four, three_of_four_heap)"
    by blast
  from g 1 s 2 n 3 show ?thesis by (intro conjI)
qed

subsection \<open>C8: grow, then shrink, then free\<close>

text \<open>
  C8. Take an allocated buffer of \<open>n\<close> elements (the pointer is null and \<open>n = 0\<close>, or it is
  a live block whose first \<open>n\<close> cells hold elements) and any \<open>k\<close>, in either strategy, and
  let \<open>grow(k)\<close> return. Then \<open>shrink(k)\<close> returns, \<open>count()\<close> is \<open>n\<close> again, each element
  at an index below \<open>n\<close> has the value it had before the \<open>grow\<close>, and a \<open>free\<close> that follows
  returns and has run the destructor once at each of the indices \<open>0, \<dots>, n - 1\<close> and at
  no other. In the model a destructor that runs on a cell that holds no element is undefined
  behaviour, so a \<open>free\<close> that returns has destructed nothing twice. The buffer is taken to
  hold fewer than \<open>2^63\<close> elements (no object is larger than \<open>PTRDIFF_MAX\<close> bytes), or else
  \<open>n + k\<close> to be a value of \<open>Size\<close>.
\<close>

theorem grow_then_shrink:
  assumes alloc: "allocated (this, h)"
    and size: "unat (count this) < 2 ^ 63 \<or> unat (count this) + unat k < 2 ^ 64"
    and g: "grow cls env k (this, h) = Inr (this1, h1)"
  shows "\<exists>this2 h2 this3 h3.
     shrink cls k (this1, h1) = Inr (this2, h2) \<and>
     count this2 = count this \<and>
     (\<forall>i<unat (count this). subscript (this2, h2) i = subscript (this, h) i \<and>
        subscript (this, h) i \<noteq> None) \<and>
     free env (this2, h2) = Inr (this3, h3) \<and>
     destructions (events h2 h3) = [0..<unat (count this)]"
proof -
  let ?c = "m_count this"
  from grow_allocated [OF g alloc]
  have alloc1: "allocated (this1, h1)"
    and keep1: "\<forall>i<unat ?c. subscript (this1, h1) i = subscript (this, h) i"
    and cnt1: "m_count this1 = (if ?c < ?c + k then ?c + k else ?c)"
    by simp_all
  let ?c2 = "(if m_count this1 - k < m_count this1 then m_count this1 - k else m_count this1)"
  from size have size': "unat ?c < 2 ^ 63 \<or> unat ?c + unat k < 2 ^ 64"
    by (simp only: count_def)
  have c2: "?c2 = ?c"
    unfolding cnt1 by (rule shrink_undoes_grow [OF size'])
  from shrink_allocated [OF alloc1, of cls k] obtain h2 where
    "shrink cls k (this1, h1) = Inr (this1\<lparr>m_count := ?c2\<rparr>, h2)"
    "allocated (this1\<lparr>m_count := ?c2\<rparr>, h2)"
    "\<forall>i<unat ?c2. subscript (this1\<lparr>m_count := ?c2\<rparr>, h2) i = subscript (this1, h1) i"
    by blast
  then obtain h2 where
    s: "shrink cls k (this1, h1) = Inr (this1\<lparr>m_count := ?c\<rparr>, h2)"
    and alloc2: "allocated (this1\<lparr>m_count := ?c\<rparr>, h2)"
    and keep2: "\<forall>i<unat ?c. subscript (this1\<lparr>m_count := ?c\<rparr>, h2) i = subscript (this1, h1) i"
    unfolding c2 by blast
  let ?this2 = "this1\<lparr>m_count := ?c\<rparr>"
  from free_allocated [OF alloc2, of env] obtain h3 where
    f: "free env (?this2, h2) = Inr (if NDEBUG env then ?this2 else ?this2\<lparr>m_ptr := Sentinel\<rparr>, h3)"
    by blast
  from events_append [OF free_control(2) [OF f]]
  have d: "destructions (events h2 h3) = [0..<unat ?c]" by simp
  have live: "subscript (this, h) i \<noteq> None" if "i < unat ?c" for i
    using allocated_elements [OF alloc that] .
  from keep1 keep2 live
  have elems: "\<forall>i<unat ?c. subscript (?this2, h2) i = subscript (this, h) i \<and>
        subscript (this, h) i \<noteq> None"
    by simp
  show ?thesis
    unfolding count_def
  proof (intro exI conjI)
    show "shrink cls k (this1, h1) = Inr (?this2, h2)" by (fact s)
    show "m_count ?this2 = ?c" by simp
    show "\<forall>i<unat ?c. subscript (?this2, h2) i = subscript (this, h) i \<and>
        subscript (this, h) i \<noteq> None" by (fact elems)
    show "free env (?this2, h2) =
        Inr (if NDEBUG env then ?this2 else ?this2\<lparr>m_ptr := Sentinel\<rparr>, h3)" by (fact f)
    show "destructions (events h2 h3) = [0..<unat ?c]" by (fact d)
  qed
qed

theorem grow_then_shrink_witness:
  "allocated (two_elements, two_elements_heap) \<and>
   grow ExactFit debug_env 2 (two_elements, two_elements_heap) =
     Inr (\<lparr>m_ptr = Addr 1, m_count = 4, m_cap = 4\<rparr>,
          \<lparr>blocks = [None, Some [Some 0, Some 0, Some 0, Some 0]], outcomes = replicate 10 True,
            trace = [Acquire 0 8, Construct 0 0, Construct 0 1, Acquire 1 16, Construct 1 0,
                    Construct 1 1, Destruct 0 0, Destruct 0 1, Release 0, Construct 1 2,
                    Construct 1 3]\<rparr>) \<and>
   (\<exists>this2 h2 this3 h3.
     shrink ExactFit 2
       (\<lparr>m_ptr = Addr 1, m_count = 4, m_cap = 4\<rparr>,
        \<lparr>blocks = [None, Some [Some 0, Some 0, Some 0, Some 0]], outcomes = replicate 10 True,
         trace = [Acquire 0 8, Construct 0 0, Construct 0 1, Acquire 1 16, Construct 1 0,
                 Construct 1 1, Destruct 0 0, Destruct 0 1, Release 0, Construct 1 2,
                 Construct 1 3]\<rparr>) = Inr (this2, h2) \<and>
     count this2 = count two_elements \<and>
     (\<forall>i<unat (count two_elements).
        subscript (this2, h2) i = subscript (two_elements, two_elements_heap) i \<and>
        subscript (two_elements, two_elements_heap) i \<noteq> None) \<and>
     free debug_env (this2, h2) = Inr (this3, h3) \<and>
     destructions (events h2 h3) = [0..<unat (count two_elements)])"
proof -
  have a: "allocated (two_elements, two_elements_heap)" by code_simp
  have s: "unat (count two_elements) < 2 ^ 63 \<or>
    unat (count two_elements) + unat (2 :: Size) < 2 ^ 64"
    by (simp add: count_def two_elements_def)
  have g: "grow ExactFit debug_env 2 (two_elements, two_elements_heap) =
     Inr (\<lparr>m_ptr = Addr 1, m_count = 4, m_cap = 4\<rparr>,
          \<lparr>blocks = [None, Some [Some 0, Some 0, Some 0, Some 0]], outcomes = replicate 10 True,
            trace = [Acquire 0 8, Construct 0 0, Construct 0 1, Acquire 1 16, Construct 1 0,
                    Construct 1 1, Destruct 0 0, Destruct 0 1, Release 0, Construct 1 2,
                    Construct 1 3]\<rparr>)"
    by code_simp
  from a g grow_then_shrink [OF a s g] show ?thesis by (intro conjI)
qed

subsection \<open>C9: ten single grows\<close>

text \<open>
  C9. Let \<open>allocate(0)\<close> and ten calls \<open>grow(1)\<close> after it all return, once on an amortized
  allocator with multiplier 1.5 and once on an exact-fit allocator. Then the amortized run
  has acquired 4 blocks from the heap and the exact-fit run 10; 4 is less than 10. Every
  exact-fit \<open>grow\<close> that returns, whatever the increment and the buffer, has acquired
  exactly one block. This is so for every element type, every build, every initializer
  and every heap the runs start on.
\<close>

theorem ten_single_grows:
  assumes am: "run (Amortized (3 / 2)) env
      [Allocate 0 ini, Grow 1, Grow 1, Grow 1, Grow 1, Grow 1, Grow 1, Grow 1, Grow 1, Grow 1, Grow 1]
      (this, h) = Inr (this', h')"
    and ex: "run ExactFit env'
      [Allocate 0 ini', Grow 1, Grow 1, Grow 1, Grow 1, Grow 1, Grow 1, Grow 1, Grow 1, Grow 1, Grow 1]
      (that, g) = Inr (that', g')"
  shows "acquisitions (events h h') = 4 \<and> acquisitions (events g g') = 10 \<and>
    acquisitions (events h h') < acquisitions (events g g') \<and>
    (grow ExactFit env' k (that0, g0) = Inr (that1, g1) \<longrightarrow>
       acquisitions (events g0 g1) = 1)"
proof -
  have amortized: "acquisitions (events h h') = 4"
  proof -
    from run_step [OF am] obtain t0 h0 where
      k0: "call (Amortized (3 / 2)) env (Allocate 0 ini) (this, h) = Inr (t0, h0)"
      and r0: "run (Amortized (3 / 2)) env
        [Grow 1, Grow 1, Grow 1, Grow 1, Grow 1, Grow 1, Grow 1, Grow 1, Grow 1, Grow 1]
        (t0, h0) = Inr (this', h')"
      by blast
    from k0 have a0: "allocate (Amortized (3 / 2)) env 0 ini (this, h) = Inr (t0, h0)" by simp
    from allocate_nothing(1,2) [OF a0] allocate_nothing(3) [OF a0 refl]
    have c0: "m_count t0 = 0" and q0: "m_cap t0 = 0" and tr0: "trace h0 = trace h @ []"
      by simp_all
    have e0: "acquisitions ([] :: event list) = 0" by simp
    from run_step [OF r0] obtain t1 h1 where
      k1: "call (Amortized (3 / 2)) env (Grow 1) (t0, h0) = Inr (t1, h1)"
      and r1: "run (Amortized (3 / 2)) env [Grow 1, Grow 1, Grow 1, Grow 1, Grow 1, Grow 1, Grow 1, Grow 1, Grow 1] (t1, h1) = Inr (this', h')"
      by blast
    from k1 have g1: "grow (Amortized (3 / 2)) env 1 (t0, h0) = Inr (t1, h1)" by simp
    from amortized_grow_realloc_step [OF g1 c0 q0 _ _ capacities(1) tr0]
    obtain evs1 where c1: "m_count t1 = 1" and q1: "m_cap t1 = 1"
      and tr1: "trace h1 = trace h @ evs1" and e1: "acquisitions evs1 = 1"
      using e0 by auto
    from run_step [OF r1] obtain t2 h2 where
      k2: "call (Amortized (3 / 2)) env (Grow 1) (t1, h1) = Inr (t2, h2)"
      and r2: "run (Amortized (3 / 2)) env [Grow 1, Grow 1, Grow 1, Grow 1, Grow 1, Grow 1, Grow 1, Grow 1] (t2, h2) = Inr (this', h')"
      by blast
    from k2 have g2: "grow (Amortized (3 / 2)) env 1 (t1, h1) = Inr (t2, h2)" by simp
    from amortized_grow_realloc_step [OF g2 c1 q1 _ _ capacities(2) tr1]
    obtain evs2 where c2: "m_count t2 = 2" and q2: "m_cap t2 = 3"
      and tr2: "trace h2 = trace h @ evs2" and e2: "acquisitions evs2 = 2"
      using e1 by auto
    from run_step [OF r2] obtain t3 h3 where
      k3: "call (Amortized (3 / 2)) env (Grow 1) (t2, h2) = Inr (t3, h3)"
      and r3: "run (Amortized (3 / 2)) env [Grow 1, Grow 1, Grow 1, Grow 1, Grow 1, Grow 1, Grow 1] (t3, h3) = Inr (this', h')"
      by blast
    from k3 have g3: "grow (Amortized (3 / 2)) env 1 (t2, h2) = Inr (t3, h3)" by simp
    from amortized_grow_reuse_step [OF g3 c2 q2 _ _ tr2]
    obtain evs3 where c3: "m_count t3 = 3" and q3: "m_cap t3 = 3"
      and tr3: "trace h3 = trace h @ evs3" and e3: "acquisitions evs3 = 2"
      using e2 by auto
    from run_step [OF r3] obtain t4 h4 where
      k4: "call (Amortized (3 / 2)) env (Grow 1) (t3, h3) = Inr (t4, h4)"
      and r4: "run (Amortized (3 / 2)) env [Grow 1, Grow 1, Grow 1, Grow 1, Grow 1, Grow 1] (t4, h4) = Inr (this', h')"
      by blast
    from k4 have g4: "grow (Amortized (3 / 2)) env 1 (t3, h3) = Inr (t4, h4)" by simp
    from amortized_grow_realloc_step [OF g4 c3 q3 _ _ capacities(3) tr3]
    obtain evs4 where c4: "m_count t4 = 4" and q4: "m_cap t4 = 6"
      and tr4: "trace h4 = trace h @ evs4" and e4: "acquisitions evs4 = 3"
      using e3 by auto
    from run_step [OF r4] obtain t5 h5 where
      k5: "call (Amortized (3 / 2)) env (Grow 1) (t4, h4) = Inr (t5, h5)"
      and r5: "run (Amortized (3 / 2)) env [Grow 1, Grow 1, Grow 1, Grow 1, Grow 1] (t5, h5) = Inr (this', h')"
      by blast
    from k5 have g5: "grow (Amortized (3 / 2)) env 1 (t4, h4) = Inr (t5, h5)" by simp
    from amortized_grow_reuse_step [OF g5 c4 q4 _ _ tr4]
    obtain evs5 where c5: "m_count t5 = 5" and q5: "m_cap t5 = 6"
      and tr5: "trace h5 = trace h @ evs5" and e5: "acquisitions evs5 = 3"
      using e4 by auto
    from run_step [OF r5] obtain t6 h6 where
      k6: "call (Amortized (3 / 2)) env (Grow 1) (t5, h5) = Inr (t6, h6)"
      and r6: "run (Amortized (3 / 2)) env [Grow 1, Grow 1, Grow 1, Grow 1] (t6, h6) = Inr (this', h')"
      by blast
    from k6 have g6: "grow (Amortized (3 / 2)) env 1 (t5, h5) = Inr (t6, h6)" by simp
    from amortized_grow_reuse_step [OF g6 c5 q5 _ _ tr5]
    obtain evs6 where c6: "m_count t6 = 6" and q6: "m_cap t6 = 6"
      and tr6: "trace h6 = trace h @ evs6" and e6: "acquisitions evs6 = 3"
      using e5 by auto
    from run_step [OF r6] obtain t7 h7 where
      k7: "call (Amortized (3 / 2)) env (Grow 1) (t6, h6) = Inr (t7, h7)"
      and r7: "run (Amortized (3 / 2)) env [Grow 1, Grow 1, Grow 1] (t7, h7) = Inr (this', h')"
      by blast
    from k7 have g7: "grow (Amortized (3 / 2)) env 1 (t6, h6) = Inr (t7, h7)" by simp
    from amortized_grow_realloc_step [OF g7 c6 q6 _ _ capacities(4) tr6]
    obtain evs7 where c7: "m_count t7 = 7" and q7: "m_cap t7 = 10"
      and tr7: "trace h7 = trace h @ evs7" and e7: "acquisitions evs7 = 4"
      using e6 by auto
    from run_step [OF r7] obtain t8 h8 where
      k8: "call (Amortized (3 / 2)) env (Grow 1) (t7, h7) = Inr (t8, h8)"
      and r8: "run (Amortized (3 / 2)) env [Grow 1, Grow 1] (t8, h8) = Inr (this', h')"
      by blast
    from k8 have g8: "grow (Amortized (3 / 2)) env 1 (t7, h7) = Inr (t8, h8)" by simp
    from amortized_grow_reuse_step [OF g8 c7 q7 _ _ tr7]
    obtain evs8 where c8: "m_count t8 = 8" and q8: "m_cap t8 = 10"
      and tr8: "trace h8 = trace h @ evs8" and e8: "acquisitions evs8 = 4"
      using e7 by auto
    from run_step [OF r8] obtain t9 h9 where
      k9: "call (Amortized (3 / 2)) env (Grow 1) (t8, h8) = Inr (t9, h9)"
      and r9: "run (Amortized (3 / 2)) env [Grow 1] (t9, h9) = Inr (this', h')"
      by blast
    from k9 have g9: "grow (Amortized (3 / 2)) env 1 (t8, h8) = Inr (t9, h9)" by simp
    from amortized_grow_reuse_step [OF g9 c8 q8 _ _ tr8]
    obtain evs9 where c9: "m_count t9 = 9" and q9: "m_cap t9 = 10"
      and tr9: "trace h9 = trace h @ evs9" and e9: "acquisitions evs9 = 4"
      using e8 by auto
    from run_step [OF r9] obtain t10 h10 where
      k10: "call (Amortized (3 / 2)) env (Grow 1) (t9, h9) = Inr (t10, h10)"
      and r10: "run (Amortized (3 / 2)) env [] (t10, h10) = Inr (this', h')"
      by blast
    from k10 have g10: "grow (Amortized (3 / 2)) env 1 (t9, h9) = Inr (t10, h10)" by simp
    from amortized_grow_reuse_step [OF g10 c9 q9 _ _ tr9]
    obtain evs10 where c10: "m_count t10 = 10" and q10: "m_cap t10 = 10"
      and tr10: "trace h10 = trace h @ evs10" and e10: "acquisitions evs10 = 4"
      using e9 by auto
    from r10 have "h10 = h'" by simp
    with tr10 e10 show ?thesis by (simp add: events_def)
  qed
  have exact: "acquisitions (events g g') = 10"
  proof -
    from run_step [OF ex] obtain t0 h0 where
      k0: "call ExactFit env' (Allocate 0 ini') (that, g) = Inr (t0, h0)"
      and r0: "run ExactFit env'
        [Grow 1, Grow 1, Grow 1, Grow 1, Grow 1, Grow 1, Grow 1, Grow 1, Grow 1, Grow 1]
        (t0, h0) = Inr (that', g')"
      by blast
    from k0 have a0: "allocate ExactFit env' 0 ini' (that, g) = Inr (t0, h0)" by simp
    from allocate_nothing(1) [OF a0]
    have tr0: "trace h0 = trace g @ []" by simp
    have e0: "acquisitions ([] :: event list) = 0" by simp
    from run_step [OF r0] obtain t1 h1 where
      k1: "call ExactFit env' (Grow 1) (t0, h0) = Inr (t1, h1)"
      and r1: "run ExactFit env' [Grow 1, Grow 1, Grow 1, Grow 1, Grow 1, Grow 1, Grow 1, Grow 1, Grow 1] (t1, h1) = Inr (that', g')"
      by blast
    from k1 have g1: "grow ExactFit env' 1 (t0, h0) = Inr (t1, h1)" by simp
    from exact_fit_grow_acquires [OF g1 tr0]
    obtain evs1 where tr1: "trace h1 = trace g @ evs1" and e1: "acquisitions evs1 = 1"
      using e0 by auto
    from run_step [OF r1] obtain t2 h2 where
      k2: "call ExactFit env' (Grow 1) (t1, h1) = Inr (t2, h2)"
      and r2: "run ExactFit env' [Grow 1, Grow 1, Grow 1, Grow 1, Grow 1, Grow 1, Grow 1, Grow 1] (t2, h2) = Inr (that', g')"
      by blast
    from k2 have g2: "grow ExactFit env' 1 (t1, h1) = Inr (t2, h2)" by simp
    from exact_fit_grow_acquires [OF g2 tr1]
    obtain evs2 where tr2: "trace h2 = trace g @ evs2" and e2: "acquisitions evs2 = 2"
      using e1 by auto
    from run_step [OF r2] obtain t3 h3 where
      k3: "call ExactFit env' (Grow 1) (t2, h2) = Inr (t3, h3)"
      and r3: "run ExactFit env' [Grow 1, Grow 1, Grow 1, Grow 1, Grow 1, Grow 1, Grow 1] (t3, h3) = Inr (that', g')"
      by blast
    from k3 have g3: "grow ExactFit env' 1 (t2, h2) = Inr (t3, h3)" by simp
    from exact_fit_grow_acquires [OF g3 tr2]
    obtain evs3 where tr3: "trace h3 = trace g @ evs3" and e3: "acquisitions evs3 = 3"
      using e2 by auto
    from run_step [OF r3] obtain t4 h4 where
      k4: "call ExactFit env' (Grow 1) (t3, h3) = Inr (t4, h4)"
      and r4: "run ExactFit env' [Grow 1, Grow 1, Grow 1, Grow 1, Grow 1, Grow 1] (t4, h4) = Inr (that', g')"
      by blast
    from k4 have g4: "grow ExactFit env' 1 (t3, h3) = Inr (t4, h4)" by simp
    from exact_fit_grow_acquires [OF g4 tr3]
    obtain evs4 where tr4: "trace h4 = trace g @ evs4" and e4: "acquisitions evs4 = 4"
      using e3 by auto
    from run_step [OF r4] obtain t5 h5 where
      k5: "call ExactFit env' (Grow 1) (t4, h4) = Inr (t5, h5)"
      and r5: "run ExactFit env' [Grow 1, Grow 1, Grow 1, Grow 1, Grow 1] (t5, h5) = Inr (that', g')"
      by blast
    from k5 have g5: "grow ExactFit env' 1 (t4, h4) = Inr (t5, h5)" by simp
    from exact_fit_grow_acquires [OF g5 tr4]
    obtain evs5 where tr5: "trace h5 = trace g @ evs5" and e5: "acquisitions evs5 = 5"
      using e4 by auto
    from run_step [OF r5] obtain t6 h6 where
      k6: "call ExactFit env' (Grow 1) (t5, h5) = Inr (t6, h6)"
      and r6: "run ExactFit env' [Grow 1, Grow 1, Grow 1, Grow 1] (t6, h6) = Inr (that', g')"
      by blast
    from k6 have g6: "grow ExactFit env' 1 (t5, h5) = Inr (t6, h6)" by simp
    from exact_fit_grow_acquires [OF g6 tr5]
    obtain evs6 where tr6: "trace h6 = trace g @ evs6" and e6: "acquisitions evs6 = 6"
      using e5 by auto
    from run_step [OF r6] obtain t7 h7 where
      k7: "call ExactFit env' (Grow 1) (t6, h6) = Inr (t7, h7)"
      and r7: "run ExactFit env' [Grow 1, Grow 1, Grow 1] (t7, h7) = Inr (that', g')"
      by blast
    from k7 have g7: "grow ExactFit env' 1 (t6, h6) = Inr (t7, h7)" by simp
    from exact_fit_grow_acquires [OF g7 tr6]
    obtain evs7 where tr7: "trace h7 = trace g @ evs7" and e7: "acquisitions evs7 = 7"
      using e6 by auto
    from run_step [OF r7] obtain t8 h8 where
      k8: "call ExactFit env' (Grow 1) (t7, h7) = Inr (t8, h8)"
      and r8: "run ExactFit env' [Grow 1, Grow 1] (t8, h8) = Inr (that', g')"
      by blast
    from k8 have g8: "grow ExactFit env' 1 (t7, h7) = Inr (t8, h8)" by simp
    from exact_fit_grow_acquires [OF g8 tr7]
    obtain evs8 where tr8: "trace h8 = trace g @ evs8" and e8: "acquisitions evs8 = 8"
      using e7 by auto
    from run_step [OF r8] obtain t9 h9 where
      k9: "call ExactFit env' (Grow 1) (t8, h8) = Inr (t9, h9)"
      and r9: "run ExactFit env' [Grow 1] (t9, h9) = Inr (that', g')"
      by blast
    from k9 have g9: "grow ExactFit env' 1 (t8, h8) = Inr (t9, h9)" by simp
    from exact_fit_grow_acquires [OF g9 tr8]
    obtain evs9 where tr9: "trace h9 = trace g @ evs9" and e9: "acquisitions evs9 = 9"
      using e8 by auto
    from run_step [OF r9] obtain t10 h10 where
      k10: "call ExactFit env' (Grow 1) (t9, h9) = Inr (t10, h10)"
      and r10: "run ExactFit env' [] (t10, h10) = Inr (that', g')"
      by blast
    from k10 have g10: "grow ExactFit env' 1 (t9, h9) = Inr (t10, h10)" by simp
    from exact_fit_grow_acquires [OF g10 tr9]
    obtain evs10 where tr10: "trace h10 = trace g @ evs10" and e10: "acquisitions evs10 = 10"
      using e9 by auto
    from r10 have "h10 = g'" by simp
    with tr10 e10 show ?thesis by (simp add: events_def)
  qed
  have each: "acquisitions (events g0 g1) = 1"
    if "grow ExactFit env' k (that0, g0) = Inr (that1, g1)"
  proof -
    from that have s: "Std_grow env' k (that0, g0) = Inr (that1, g1)"
      by (simp add: grow_def)
    from events_append [OF Std_grow_control(2) [OF s]] show ?thesis by simp
  qed
  from amortized exact each show ?thesis by simp
qed

theorem ten_single_grows_witness:
  "\<not> isl (run (Amortized (3 / 2)) debug_env
        [Allocate 0 Default, Grow 1, Grow 1, Grow 1, Grow 1, Grow 1, Grow 1, Grow 1, Grow 1,
         Grow 1, Grow 1]
        (StdAllocator, fresh_heap)) \<and>
   \<not> isl (run ExactFit debug_env
        [Allocate 0 Default, Grow 1, Grow 1, Grow 1, Grow 1, Grow 1, Grow 1, Grow 1, Grow 1,
         Grow 1, Grow 1]
        (StdAllocator, fresh_heap)) \<and>
   acquisitions (events fresh_heap (snd (projr (run (Amortized (3 / 2)) debug_env
        [Allocate 0 Default, Grow 1, Grow 1, Grow 1, Grow 1, Grow 1, Grow 1, Grow 1, Grow 1,
         Grow 1, Grow 1]
        (StdAllocator, fresh_heap))))) = 4 \<and>
   acquisitions (events fresh_heap (snd (projr (run ExactFit debug_env
        [Allocate 0 Default, Grow 1, Grow 1, Grow 1, Grow 1, Grow 1, Grow 1, Grow 1, Grow 1,
         Grow 1, Grow 1]
        (StdAllocator, fresh_heap))))) = 10 \<and>
   grow ExactFit debug_env 1 (two_elements, two_elements_heap) =
     Inr (\<lparr>m_ptr = Addr 1, m_count = 3, m_cap = 3\<rparr>,
          \<lparr>blocks = [None, Some [Some 0, Some 0, Some 0]], outcomes = replicate 10 True,
            trace = [Acquire 0 8, Construct 0 0, Construct 0 1, Acquire 1 12, Construct 1 0,
                    Construct 1 1, Destruct 0 0, Destruct 0 1, Release 0, Construct 1 2]\<rparr>) \<and>
   acquisitions (events two_elements_heap
     \<lparr>blocks = [None, Some [Some 0, Some 0, Some 0]], outcomes = replicate 10 True,
       trace = [Acquire 0 8, Construct 0 0, Construct 0 1, Acquire 1 12, Construct 1 0,
               Construct 1 1, Destruct 0 0, Destruct 0 1, Release 0, Construct 1 2]\<rparr>) = 1"
proof -
  let ?am = "run (Amortized (3 / 2)) debug_env
        [Allocate 0 Default, Grow 1, Grow 1, Grow 1, Grow 1, Grow 1, Grow 1, Grow 1, Grow 1,
         Grow 1, Grow 1]
        (StdAllocator, fresh_heap)"
  let ?ex = "run ExactFit debug_env
        [Allocate 0 Default, Grow 1, Grow 1, Grow 1, Grow 1, Grow 1, Grow 1, Grow 1, Grow 1,
         Grow 1, Grow 1]
        (StdAllocator, fresh_heap)"
  have am: "?am = Inr (fst (projr ?am), snd (projr ?am))" by code_simp
  have ex: "?ex = Inr (fst (projr ?ex), snd (projr ?ex))" by code_simp
  have ok: "\<not> isl ?am" "\<not> isl ?ex" by code_simp+
  have g: "grow ExactFit debug_env 1 (two_elements, two_elements_heap) =
     Inr (\<lparr>m_ptr = Addr 1, m_count = 3, m_cap = 3\<rparr>,
          \<lparr>blocks = [None, Some [Some 0, Some 0, Some 0]], outcomes = replicate 10 True,
            trace = [Acquire 0 8, Construct 0 0, Construct 0 1, Acquire 1 12, Construct 1 0,
                    Construct 1 1, Destruct 0 0, Destruct 0 1, Release 0, Construct 1 2]\<rparr>)"
    by code_simp
  note t = ten_single_grows [OF am ex, where k = 1 and ?that0.0 = two_elements
      and ?g0.0 = two_elements_heap]
  from t have 1: "acquisitions (events fresh_heap (snd (projr ?am))) = 4"
    "acquisitions (events fresh_heap (snd (projr ?ex))) = 10"
    by blast+
  from g t have 2: "acquisitions (events two_elements_heap
     \<lparr>blocks = [None, Some [Some 0, Some 0, Some 0]], outcomes = replicate 10 True,
       trace = [Acquire 0 8, Construct 0 0, Construct 0 1, Acquire 1 12, Construct 1 0,
               Construct 1 1, Destruct 0 0, Destruct 0 1, Release 0, Construct 1 2]\<rparr>) = 1"
    by blast
  from ok 1 g 2 show ?thesis by (intro conjI)
qed

subsection \<open>C10: what \<open>free\<close> leaves\<close>

text \<open>
  C10. A \<open>free\<close> that returns has run the destructor at the indices \<open>0, \<dots>, count - 1\<close>
  and released the block, and \<open>count()\<close> and \<open>capacity()\<close> are what they were before the
  call: neither field is reset, so a freed buffer of two elements still reports a count of
  2. The stored pointer is unchanged in an optimized build and is the value \<open>(T* )-1\<close> in a
  debug build.
\<close>

theorem free_keeps_count_and_capacity:
  assumes "free env (this, h) = Inr (this', h')"
  shows "count this' = count this \<and> capacity this' = capacity this \<and>
    destructions (events h h') = [0..<unat (count this)] \<and>
    block_at h' (m_ptr this) = None \<and>
    m_ptr this' = (if NDEBUG env then m_ptr this else Sentinel)"
proof -
  note c = free_control [OF assms]
  from c(1) have "count this' = count this" "capacity this' = capacity this"
    "m_ptr this' = (if NDEBUG env then m_ptr this else Sentinel)"
    by (simp_all add: count_def capacity_def)
  moreover from events_append [OF c(2)]
  have "destructions (events h h') = [0..<unat (count this)]"
    by (simp add: count_def)
  ultimately show ?thesis using c(4) by simp
qed

theorem free_keeps_count_and_capacity_witness:
  "free release_env (two_elements, two_elements_heap) =
     Inr (\<lparr>m_ptr = Addr 0, m_count = 2, m_cap = 0\<rparr>,
          \<lparr>blocks = [None], outcomes = replicate 11 True,
            trace = [Acquire 0 8, Construct 0 0, Construct 0 1, Destruct 0 0, Destruct 0 1,
                    Release 0]\<rparr>) \<and>
   count \<lparr>m_ptr = Addr 0, m_count = 2, m_cap = 0\<rparr> = count two_elements \<and>
   count two_elements = 2 \<and>
   capacity \<lparr>m_ptr = Addr 0, m_count = 2, m_cap = 0\<rparr> = capacity two_elements \<and>
   destructions (events two_elements_heap
     \<lparr>blocks = [None], outcomes = replicate 11 True,
       trace = [Acquire 0 8, Construct 0 0, Construct 0 1, Destruct 0 0, Destruct 0 1,
               Release 0]\<rparr>) =
     [0..<unat (count two_elements)] \<and>
   block_at
     (\<lparr>blocks = [None], outcomes = replicate 11 True,
        trace = [Acquire 0 8, Construct 0 0, Construct 0 1, Destruct 0 0, Destruct 0 1,
                Release 0]\<rparr> :: nat heap)
     (m_ptr two_elements) = None \<and>
   m_ptr \<lparr>m_ptr = Addr 0, m_count = 2, m_cap = 0\<rparr> =
     (if NDEBUG release_env then m_ptr two_elements else Sentinel)"
proof -
  have f: "free release_env (two_elements, two_elements_heap) =
     Inr (\<lparr>m_ptr = Addr 0, m_count = 2, m_cap = 0\<rparr>,
          \<lparr>blocks = [None], outcomes = replicate 11 True,
            trace = [Acquire 0 8, Construct 0 0, Construct 0 1, Destruct 0 0, Destruct 0 1,
                    Release 0]\<rparr>)"
    by code_simp
  have c: "count two_elements = 2" by code_simp
  note t = free_keeps_count_and_capacity [OF f]
  from t have 1: "count \<lparr>m_ptr = Addr 0, m_count = 2, m_cap = 0\<rparr> = count two_elements"
    "capacity \<lparr>m_ptr = Addr 0, m_count = 2, m_cap = 0\<rparr> = capacity two_elements"
    "destructions (events two_elements_heap
     \<lparr>blocks = [None], outcomes = replicate 11 True,
       trace = [Acquire 0 8, Construct 0 0, Construct 0 1, Destruct 0 0, Destruct 0 1,
               Release 0]\<rparr>) =
     [0..<unat (count two_elements)]"
    "block_at
     (\<lparr>blocks = [None], outcomes = replicate 11 True,
        trace = [Acquire 0 8, Construct 0 0, Construct 0 1, Destruct 0 0, Destruct 0 1,
                Release 0]\<rparr> :: nat heap)
     (m_ptr two_elements) = None"
    "m_ptr \<lparr>m_ptr = Addr 0, m_count = 2, m_cap = 0\<rparr> =
     (if NDEBUG release_env then m_ptr two_elements else Sentinel)"
    by blast+
  from f 1(1) c 1(2-5) show ?thesis by (intro conjI)
qed

end
